theory Spec2Isabelle
  imports Main
begin

section \<open>Python lists and exceptions\<close>

text \<open>
  The exceptions the game logic can raise: an index out of range, the puzzle file that
  \<open>open\<close> does not find, and a token that \<open>int\<close> refuses.
\<close>

datatype error = IndexError | FileNotFoundError | ValueError

text \<open>Reading \<open>xs[i]\<close> for an index produced by \<open>range\<close> (never negative).\<close>

definition getitem_nat :: "'a list \<Rightarrow> nat \<Rightarrow> error + 'a" where
  "getitem_nat xs i = (if i < length xs then Inr (xs ! i) else Inl IndexError)"

text \<open>
  The position that \<open>xs[i]\<close> denotes for an arbitrary integer \<open>i\<close>: from
  \<open>-len(xs)\<close> up to \<open>-1\<close> the index counts back from the end, and outside
  \<open>-len(xs) \<dots> len(xs) - 1\<close> the access raises IndexError.
\<close>

definition py_index :: "'a list \<Rightarrow> int \<Rightarrow> error + nat" where
  "py_index xs i =
     (if 0 \<le> i \<and> i < int (length xs) then Inr (nat i)
      else if - int (length xs) \<le> i \<and> i < 0 then Inr (nat (int (length xs) + i))
      else Inl IndexError)"

section \<open>utils.determine\_hints\<close>

text \<open>
  The inner loop over the squares of one row, with the test after the loop: the run
  counter \<open>count\<close> and the hints emitted so far are threaded through.
\<close>

fun row_scan :: "int list \<Rightarrow> int \<Rightarrow> int list \<Rightarrow> int list" where
  "row_scan [] count row_hint = (if count > 0 then row_hint @ [count] else row_hint)"
| "row_scan (square # rest) count row_hint =
     (if square = 1 then row_scan rest (count + 1) row_hint
      else if count > 0 then row_scan rest 0 (row_hint @ [count])
      else row_scan rest count row_hint)"

text \<open>The outer loop \<open>for row in solution\<close>.\<close>

fun row_loop :: "int list list \<Rightarrow> int list list \<Rightarrow> int list list" where
  "row_loop [] row_hints = row_hints"
| "row_loop (row # rest) row_hints = row_loop rest (row_hints @ [row_scan row 0 []])"

text \<open>
  The inner loop of the column pass, \<open>for row in range(len(solution))\<close>, reading
  \<open>solution[row][col]\<close>: a row too short for \<open>col\<close> raises IndexError.
\<close>

fun col_scan :: "int list list \<Rightarrow> nat \<Rightarrow> nat list \<Rightarrow> int \<Rightarrow> int list \<Rightarrow> error + int list" where
  "col_scan solution col [] count col_hint =
     Inr (if count > 0 then col_hint @ [count] else col_hint)"
| "col_scan solution col (row # rows) count col_hint =
     (case getitem_nat solution row of
        Inl e \<Rightarrow> Inl e
      | Inr r \<Rightarrow>
          (case getitem_nat r col of
             Inl e \<Rightarrow> Inl e
           | Inr square \<Rightarrow>
               if square = 1 then col_scan solution col rows (count + 1) col_hint
               else if count > 0 then col_scan solution col rows 0 (col_hint @ [count])
               else col_scan solution col rows count col_hint))"

text \<open>The outer loop \<open>for col in range(len(solution[0]))\<close>.\<close>

fun col_loop :: "int list list \<Rightarrow> nat list \<Rightarrow> int list list \<Rightarrow> error + int list list" where
  "col_loop solution [] column_hints = Inr column_hints"
| "col_loop solution (col # cols) column_hints =
     (case col_scan solution col [0..<length solution] 0 [] of
        Inl e \<Rightarrow> Inl e
      | Inr col_hint \<Rightarrow> col_loop solution cols (column_hints @ [col_hint]))"

text \<open>
  The function returns the pair (column hints, row hints). \<open>solution[0]\<close> raises
  IndexError on a grid with no row.
\<close>

definition determine_hints :: "int list list \<Rightarrow> error + (int list list \<times> int list list)" where
  "determine_hints solution =
     (case getitem_nat solution 0 of
        Inl e \<Rightarrow> Inl e
      | Inr row0 \<Rightarrow>
          (case col_loop solution [0..<length row0] [] of
             Inl e \<Rightarrow> Inl e
           | Inr column_hints \<Rightarrow> Inr (column_hints, row_loop solution [])))"

section \<open>utils.get\_solution\<close>

text \<open>
  \<open>str(puzzle_number)\<close> for an integer: its decimal digits, with a minus sign when
  negative.
\<close>

definition digit_char :: "nat \<Rightarrow> char" where
  "digit_char d = ''0123456789'' ! (d mod 10)"

function str_nat :: "nat \<Rightarrow> string" where
  "str_nat n = (if n < 10 then [digit_char n] else str_nat (n div 10) @ [digit_char (n mod 10)])"
  by pat_completeness auto
termination
  by (relation "measure id") auto

declare str_nat.simps [simp del]

definition str :: "int \<Rightarrow> string" where
  "str i = (if i < 0 then CHR ''-'' # str_nat (nat (- i)) else str_nat (nat i))"

text \<open>\<open>line.split(" ")\<close>: the pieces between single spaces, empty pieces included.\<close>

fun split_space :: "string \<Rightarrow> string list" where
  "split_space [] = [[]]"
| "split_space (c # cs) =
     (if c = CHR '' '' then [] # split_space cs
      else (case split_space cs of [] \<Rightarrow> [[c]] | t # ts \<Rightarrow> (c # t) # ts))"

text \<open>
  The list comprehension \<open>[int(x.strip()) for x in line.split(" ")]\<close>. Python's
  built-in conversion of a stripped token is the parameter \<open>to_int\<close>; \<open>None\<close>
  is the token it refuses with ValueError.
\<close>

fun parse_tokens :: "(string \<Rightarrow> int option) \<Rightarrow> string list \<Rightarrow> error + int list" where
  "parse_tokens to_int [] = Inr []"
| "parse_tokens to_int (x # xs) =
     (case to_int x of
        None \<Rightarrow> Inl ValueError
      | Some v \<Rightarrow> (case parse_tokens to_int xs of Inl e \<Rightarrow> Inl e | Inr vs \<Rightarrow> Inr (v # vs)))"

text \<open>The loop \<open>for line in file\<close>, appending one row per line.\<close>

fun parse_lines :: "(string \<Rightarrow> int option) \<Rightarrow> string list \<Rightarrow> int list list \<Rightarrow> error + int list list" where
  "parse_lines to_int [] solution = Inr solution"
| "parse_lines to_int (line # rest) solution =
     (case parse_tokens to_int (split_space line) of
        Inl e \<Rightarrow> Inl e
      | Inr row \<Rightarrow> parse_lines to_int rest (solution @ [row]))"

text \<open>
  The puzzle store maps a path to the lines of the file at that path; \<open>open\<close> raises
  FileNotFoundError on a path with no file. The path is
  \<open>"puzzles/puzzle_" + str(puzzle_number) + ".txt"\<close>.
\<close>

definition puzzle_path :: "int \<Rightarrow> string" where
  "puzzle_path puzzle_number = ''puzzles/puzzle_'' @ str puzzle_number @ ''.txt''"

definition get_solution ::
  "(string \<Rightarrow> int option) \<Rightarrow> (string \<rightharpoonup> string list) \<Rightarrow> int \<Rightarrow> error + int list list" where
  "get_solution to_int files puzzle_number =
     (case files (puzzle_path puzzle_number) of
        None \<Rightarrow> Inl FileNotFoundError
      | Some lines \<Rightarrow> parse_lines to_int lines [])"

section \<open>Nonogram: the game state\<close>

text \<open>
  The fields of the class that hold the game. A cell of \<open>grid\<close> is one of the strings
  \<open>"0"\<close> (unmarked), \<open>"1"\<close> (filled) and \<open>"x"\<close> (crossed). The two dimensions are
  only ever assigned a \<open>len\<close>, so they are natural numbers. The widgets are not
  part of the state: what the methods do to them is recorded as a list of effects, the
  label update with the number it shows, a dialog with its title and message, and
  \<open>self.draw()\<close> as one effect. These calls change no game field and are taken to
  return.
\<close>

record game =
  solution :: "int list list"
  n_columns :: nat
  n_rows :: nat
  grid :: "string list list"
  column_hints :: "int list list"
  row_hints :: "int list list"
  tries_left :: int

datatype effect =
    TriesLabel int
  | ShowInfo string string
  | ShowError string string
  | Draw

text \<open>
  A method leaves the object in some state, has shown some effects in order, and has
  either returned (\<open>None\<close>) or raised an exception that leaves the method.
\<close>

type_synonym outcome = "game \<times> effect list \<times> error option"

text \<open>
  The click handler receives the mouse button and the two coordinates after
  \<open>int(event.xdata)\<close> and \<open>int(event.ydata)\<close>.
\<close>

record mouse_event =
  button :: int
  xdata :: int
  ydata :: int

text \<open>
  \<open>grid[y][x]\<close> resolves the row index and then the column index, each as Python
  does; the position found is where a later \<open>grid[y][x] = v\<close> writes.
\<close>

definition cell_index :: "'a list list \<Rightarrow> int \<Rightarrow> int \<Rightarrow> error + (nat \<times> nat)" where
  "cell_index g y x =
     (case py_index g y of
        Inl e \<Rightarrow> Inl e
      | Inr i \<Rightarrow> (case py_index (g ! i) x of Inl e \<Rightarrow> Inl e | Inr j \<Rightarrow> Inr (i, j)))"

definition getitem2 :: "'a list list \<Rightarrow> int \<Rightarrow> int \<Rightarrow> error + 'a" where
  "getitem2 g y x =
     (case cell_index g y x of Inl e \<Rightarrow> Inl e | Inr (i, j) \<Rightarrow> Inr (g ! i ! j))"

definition set_cell :: "game \<Rightarrow> nat \<Rightarrow> nat \<Rightarrow> string \<Rightarrow> game" where
  "set_cell s i j v = s\<lparr>grid := (grid s)[i := (grid s ! i)[j := v]]\<rparr>"

definition fresh_grid :: "game \<Rightarrow> string list list" where
  "fresh_grid s = replicate (n_rows s) (replicate (n_columns s) ''0'')"

section \<open>Nonogram.check\_state\<close>

text \<open>
  The inner loop over \<open>j\<close>: \<open>Inr False\<close> is the early \<open>return False\<close>,
  \<open>Inr True\<close> is the loop running to its end. The play grid is read only where the
  solution holds 1.
\<close>

fun check_columns :: "game \<Rightarrow> nat \<Rightarrow> nat list \<Rightarrow> error + bool" where
  "check_columns s i [] = Inr True"
| "check_columns s i (j # js) =
     (case getitem2 (solution s) (int (n_rows s) - int i - 1) (int j) of
        Inl e \<Rightarrow> Inl e
      | Inr v \<Rightarrow>
          if v = 1 then
            (case getitem2 (grid s) (int i) (int j) of
               Inl e \<Rightarrow> Inl e
             | Inr c \<Rightarrow> if c \<noteq> ''1'' then Inr False else check_columns s i js)
          else check_columns s i js)"

fun check_rows :: "game \<Rightarrow> nat list \<Rightarrow> error + bool" where
  "check_rows s [] = Inr True"
| "check_rows s (i # is) =
     (case check_columns s i [0..<n_columns s] of
        Inl e \<Rightarrow> Inl e
      | Inr ok \<Rightarrow> if ok then check_rows s is else Inr False)"

definition check_state :: "game \<Rightarrow> error + bool" where
  "check_state s = check_rows s [0..<n_rows s]"

section \<open>Nonogram.restart\_game\<close>

text \<open>
  \<open>MAX_TRIES\<close> comes from the settings module and is a parameter here. The grid and
  the counter are assigned before the hints are derived, so an exception of
  \<open>determine_hints\<close> leaves them reset.
\<close>

definition restart_game :: "int \<Rightarrow> game \<Rightarrow> outcome" where
  "restart_game MAX_TRIES s =
     (let s1 = s\<lparr>grid := fresh_grid s\<rparr>;
          s2 = s1\<lparr>tries_left := MAX_TRIES\<rparr>;
          label = [TriesLabel (tries_left s2)]
      in case determine_hints (solution s2) of
           Inl e \<Rightarrow> (s2, label, Some e)
         | Inr (ch, rh) \<Rightarrow> (s2\<lparr>column_hints := ch, row_hints := rh\<rparr>, label @ [Draw], None))"

section \<open>Nonogram.on\_click\<close>

text \<open>
  The end of the handler, reached by every path but the game over:
  \<open>self.draw()\<close>, then the win dialog when \<open>check_state\<close> holds.
\<close>

definition finish_click :: "game \<Rightarrow> effect list \<Rightarrow> outcome" where
  "finish_click s shown =
     (case check_state s of
        Inl e \<Rightarrow> (s, shown @ [Draw], Some e)
      | Inr won \<Rightarrow>
          (s, shown @ [Draw] @
              (if won then [ShowInfo ''You won!''
                 ''Good job! You completed the nonogram! How about another one?''] else []),
           None))"

definition left_click :: "int \<Rightarrow> game \<Rightarrow> int \<Rightarrow> int \<Rightarrow> outcome" where
  "left_click MAX_TRIES s x y =
     (case cell_index (grid s) y x of
        Inl e \<Rightarrow> (s, [], Some e)
      | Inr (i, j) \<Rightarrow>
          if grid s ! i ! j = ''0'' then
            (case getitem2 (solution s) (int (n_rows s) - y - 1) x of
               Inl e \<Rightarrow> (s, [], Some e)
             | Inr v \<Rightarrow>
                 if v = 1 then finish_click (set_cell s i j ''1'') []
                 else
                   (let s1 = set_cell s i j ''x'';
                        s2 = s1\<lparr>tries_left := tries_left s1 - 1\<rparr>;
                        label = [TriesLabel (tries_left s2)]
                    in if tries_left s2 = 0 then
                         (case restart_game MAX_TRIES s2 of
                            (s3, shown, exc) \<Rightarrow>
                              (s3,
                               label @ [ShowInfo ''Game over''
                                  ''You are out of tries, the game will now restart.''] @ shown,
                               exc))
                       else finish_click s2 (label @ [ShowInfo ''Mistake'' ''You made a mistake!''])))
          else finish_click s [])"

definition right_click :: "game \<Rightarrow> int \<Rightarrow> int \<Rightarrow> outcome" where
  "right_click s x y =
     (case cell_index (grid s) y x of
        Inl e \<Rightarrow> (s, [], Some e)
      | Inr (i, j) \<Rightarrow>
          if grid s ! i ! j = ''0'' then finish_click (set_cell s i j ''x'') []
          else if grid s ! i ! j = ''x'' then finish_click (set_cell s i j ''0'') []
          else finish_click s [])"

definition on_click :: "int \<Rightarrow> game \<Rightarrow> mouse_event \<Rightarrow> outcome" where
  "on_click MAX_TRIES s event =
     (let x = xdata event; y = ydata event
      in if button event = 1 then left_click MAX_TRIES s x y
         else if button event = 3 then right_click s x y
         else finish_click s [])"

section \<open>Nonogram.load\_puzzle and the constructor\<close>

text \<open>
  The \<open>except FileNotFoundError\<close> clause around the whole body: that exception ends
  in the error dialog and a normal return, any other leaves the method.
\<close>

definition except_not_found :: "outcome \<Rightarrow> outcome" where
  "except_not_found r =
     (case r of
        (s, shown, Some FileNotFoundError) \<Rightarrow>
          (s, shown @ [ShowError ''Error'' ''Puzzle file not found.''], None)
      | _ \<Rightarrow> r)"

definition load_puzzle ::
  "int \<Rightarrow> (string \<Rightarrow> int option) \<Rightarrow> (string \<rightharpoonup> string list) \<Rightarrow> game \<Rightarrow> int \<Rightarrow> outcome" where
  "load_puzzle MAX_TRIES to_int files s puzzle_number =
     except_not_found
       (case get_solution to_int files puzzle_number of
          Inl e \<Rightarrow> (s, [], Some e)
        | Inr sol \<Rightarrow>
            (let s1 = s\<lparr>solution := sol\<rparr>
             in case getitem_nat (solution s1) 0 of
                  Inl e \<Rightarrow> (s1, [], Some e)
                | Inr row0 \<Rightarrow>
                    (let s2 = s1\<lparr>n_columns := length row0\<rparr>;
                         s3 = s2\<lparr>n_rows := length (solution s2)\<rparr>
                     in restart_game MAX_TRIES s3)))"

text \<open>
  The game fields as the constructor sets them, from puzzle 1. An exception here leaves
  no object at all.
\<close>

definition init_game ::
  "int \<Rightarrow> (string \<Rightarrow> int option) \<Rightarrow> (string \<rightharpoonup> string list) \<Rightarrow> error + game" where
  "init_game MAX_TRIES to_int files =
     (case get_solution to_int files 1 of
        Inl e \<Rightarrow> Inl e
      | Inr sol \<Rightarrow>
          (case getitem_nat sol 0 of
             Inl e \<Rightarrow> Inl e
           | Inr row0 \<Rightarrow>
               (case determine_hints sol of
                  Inl e \<Rightarrow> Inl e
                | Inr (ch, rh) \<Rightarrow>
                    Inr \<lparr>solution = sol, n_columns = length row0, n_rows = length sol,
                         grid = replicate (length sol) (replicate (length row0) ''0''),
                         column_hints = ch, row_hints = rh, tries_left = MAX_TRIES\<rparr>)))"

section \<open>States, positions and runs of the game\<close>

text \<open>
  The shape the constructor and \<open>load_puzzle\<close> establish: the solution has a row,
  the two dimensions are those of the solution, no solution row is shorter than the
  first, and the play grid has exactly these dimensions.
\<close>

definition well_formed :: "game \<Rightarrow> bool" where
  "well_formed s =
     (solution s \<noteq> [] \<and>
      n_rows s = length (solution s) \<and>
      n_columns s = length (hd (solution s)) \<and>
      list_all (\<lambda>r. n_columns s \<le> length r) (solution s) \<and>
      length (grid s) = n_rows s \<and>
      list_all (\<lambda>r. length r = n_columns s) (grid s))"

text \<open>A click whose coordinates lie inside the grid.\<close>

definition in_bounds :: "game \<Rightarrow> mouse_event \<Rightarrow> bool" where
  "in_bounds s event =
     (0 \<le> xdata event \<and> xdata event < int (n_columns s) \<and>
      0 \<le> ydata event \<and> ydata event < int (n_rows s))"

text \<open>
  The solution cell that the methods consult for the play cell in row \<open>i\<close> and column
  \<open>j\<close>: \<open>solution[n_rows - i - 1][j] == 1\<close>.
\<close>

definition solution_filled :: "game \<Rightarrow> nat \<Rightarrow> nat \<Rightarrow> bool" where
  "solution_filled s i j =
     (getitem2 (solution s) (int (n_rows s) - int i - 1) (int j) = Inr 1)"

text \<open>Every cell marked filled in the play grid is filled in the solution.\<close>

definition filled_confirmed :: "game \<Rightarrow> bool" where
  "filled_confirmed s =
     (\<forall>i < n_rows s. \<forall>j < n_columns s. grid s ! i ! j = ''1'' \<longrightarrow> solution_filled s i j)"

text \<open>The left click and the right click on the play cell in row \<open>i\<close>, column \<open>j\<close>.\<close>

definition primary :: "nat \<Rightarrow> nat \<Rightarrow> mouse_event" where
  "primary i j = \<lparr>button = 1, xdata = int j, ydata = int i\<rparr>"

definition secondary :: "nat \<Rightarrow> nat \<Rightarrow> mouse_event" where
  "secondary i j = \<lparr>button = 3, xdata = int j, ydata = int i\<rparr>"

text \<open>The state after a method, and the state after a sequence of clicks.\<close>

definition state_of :: "outcome \<Rightarrow> game" where
  "state_of r = fst r"

definition shown_by :: "outcome \<Rightarrow> effect list" where
  "shown_by r = fst (snd r)"

definition raised_by :: "outcome \<Rightarrow> error option" where
  "raised_by r = snd (snd r)"

fun run_clicks :: "int \<Rightarrow> game \<Rightarrow> mouse_event list \<Rightarrow> game" where
  "run_clicks MAX_TRIES s [] = s"
| "run_clicks MAX_TRIES s (event # events) =
     run_clicks MAX_TRIES (state_of (on_click MAX_TRIES s event)) events"

text \<open>
  The states a session reaches: the constructor's state, then any click inside the
  grid, any restart, and any load that returns (a puzzle loaded, or the error dialog of
  a missing file).
\<close>

inductive reachable :: "int \<Rightarrow> game \<Rightarrow> bool" for MAX_TRIES :: int where
  start: "init_game MAX_TRIES to_int files = Inr s \<Longrightarrow> reachable MAX_TRIES s"
| click: "reachable MAX_TRIES s \<Longrightarrow> in_bounds s event \<Longrightarrow>
          on_click MAX_TRIES s event = (s', shown, exc) \<Longrightarrow> reachable MAX_TRIES s'"
| restart: "reachable MAX_TRIES s \<Longrightarrow>
          restart_game MAX_TRIES s = (s', shown, exc) \<Longrightarrow> reachable MAX_TRIES s'"
| load: "reachable MAX_TRIES s \<Longrightarrow>
          load_puzzle MAX_TRIES to_int files s n = (s', shown, None) \<Longrightarrow> reachable MAX_TRIES s'"

text \<open>
  A small game to run the methods on: two rows, three columns, nothing marked, three
  tries left. Play row 0 is the last solution row.
\<close>

definition demo :: game where
  "demo = \<lparr>solution = [[1, 0, 0], [0, 1, 0]], n_columns = 3, n_rows = 2,
            grid = [[''0'', ''0'', ''0''], [''0'', ''0'', ''0'']],
            column_hints = [[1], [1], []], row_hints = [[1], [1]], tries_left = 3\<rparr>"

text \<open>
  A puzzle store with that game as puzzle 1, and a token conversion that knows the two
  digits of a puzzle file.
\<close>

definition demo_to_int :: "string \<Rightarrow> int option" where
  "demo_to_int t = (if t = ''0'' then Some 0 else if t = ''1'' then Some 1 else None)"

definition demo_files :: "string \<rightharpoonup> string list" where
  "demo_files = [''puzzles/puzzle_1.txt'' \<mapsto> [''1 0 0'', ''0 1 0'']]"

section \<open>Run-length encoding, as the specification words it\<close>

text \<open>
  A grid is rectangular when it has a row and all rows are as long as the first;
  it is binary when every cell is 0 (empty) or 1 (filled).
\<close>

definition rectangular :: "'a list list \<Rightarrow> bool" where
  "rectangular g = (g \<noteq> [] \<and> list_all (\<lambda>r. length r = length (hd g)) g)"

definition binary_line :: "int list \<Rightarrow> bool" where
  "binary_line xs = list_all (\<lambda>c. c = 0 \<or> c = 1) xs"

definition binary :: "int list list \<Rightarrow> bool" where
  "binary g = list_all binary_line g"

text \<open>Column \<open>j\<close> of a grid read top to bottom, and all columns in column order.\<close>

definition column :: "'a list list \<Rightarrow> nat \<Rightarrow> 'a list" where
  "column g j = map (\<lambda>r. r ! j) g"

definition columns :: "'a list list \<Rightarrow> 'a list list" where
  "columns g = map (column g) [0..<length (hd g)]"

text \<open>
  The specification's run-length encoding: the lengths of the maximal contiguous blocks
  of filled cells, in scan order. A block starts at a filled cell and takes every
  filled cell that follows without a break.
\<close>

function run_lengths :: "int list \<Rightarrow> int list" where
  "run_lengths [] = []"
| "run_lengths (x # xs) =
     (if x = 1
      then int (length (takeWhile (\<lambda>c. c = 1) (x # xs))) # run_lengths (dropWhile (\<lambda>c. c = 1) xs)
      else run_lengths xs)"
  by pat_completeness auto
termination
  by (relation "measure length") (auto simp: length_dropWhile_le less_Suc_eq_le)

text \<open>
  The same notion stated without any scan: a line has the hints \<open>hs\<close> when it is a
  gap of empty cells, or a gap, a block of \<open>h > 0\<close> filled cells and a remainder that
  is exhausted or starts with an empty cell and has the remaining hints.
\<close>

inductive blocks :: "int list \<Rightarrow> int list \<Rightarrow> bool" where
  gap: "blocks (replicate g 0) []"
| run: "blocks rest hs \<Longrightarrow> 0 < h \<Longrightarrow> rest = [] \<or> hd rest = 0 \<Longrightarrow>
        blocks (replicate g 0 @ replicate h 1 @ rest) (int h # hs)"

text \<open>The number of filled cells of a line.\<close>

definition filled_count :: "int list \<Rightarrow> nat" where
  "filled_count xs = length (filter (\<lambda>c. c = 1) xs)"

section \<open>The hints are the run-length encoding\<close>

lemma row_scan_append:
  "row_scan xs count (pre @ row_hint) = pre @ row_scan xs count row_hint"
  by (induction xs count row_hint rule: row_scan.induct) simp_all

lemma row_scan_acc: "row_scan xs count row_hint = row_hint @ row_scan xs count []"
  using row_scan_append [of xs count row_hint "[]"] by simp

lemma row_scan_ones:
  "0 \<le> count \<Longrightarrow> row_scan (replicate n 1 @ xs) count [] = row_scan xs (count + int n) []"
  by (induction n arbitrary: count) (simp_all add: algebra_simps)

lemma row_scan_run:
  assumes "0 \<le> count" "xs = [] \<or> hd xs \<noteq> 1"
  shows "row_scan xs count [] = (if count > 0 then count # row_scan xs 0 [] else row_scan xs 0 [])"
proof (cases xs)
  case Nil
  then show ?thesis by simp
next
  case (Cons x xs')
  with assms have "x \<noteq> 1" by simp
  with Cons assms(1) show ?thesis
    using row_scan_acc [of xs' 0 "[count]"] by (simp add: less_le)
qed

lemma takeWhile_dropWhile_hd:
  "dropWhile P xs = [] \<or> \<not> P (hd (dropWhile P xs))"
  using hd_dropWhile by blast

lemma row_scan_run_lengths: "row_scan xs 0 [] = run_lengths xs"
proof (induction xs rule: run_lengths.induct)
  case 1
  show ?case by simp
next
  case (2 x xs)
  show ?case
  proof (cases "x = 1")
    case False
    with 2 show ?thesis by simp
  next
    case True
    let ?t = "takeWhile (\<lambda>c. c = 1) xs" and ?d = "dropWhile (\<lambda>c. c = 1) xs"
    have ones: "?t = replicate (length ?t) 1"
      by (rule replicate_length_same [symmetric]) (auto dest: set_takeWhileD)
    have split: "xs = replicate (length ?t) 1 @ ?d"
      using ones takeWhile_dropWhile_id [of "\<lambda>c. c = 1" xs] by metis
    have "row_scan (x # xs) 0 [] = row_scan xs 1 []"
      using True by simp
    also have "\<dots> = row_scan (replicate (length ?t) 1 @ ?d) 1 []"
      using split by simp
    also have "\<dots> = row_scan ?d (1 + int (length ?t)) []"
      by (rule row_scan_ones) simp
    also have "\<dots> = (1 + int (length ?t)) # row_scan ?d 0 []"
      using row_scan_run [of "1 + int (length ?t)" ?d]
        takeWhile_dropWhile_hd [of "\<lambda>c. c = 1" xs] by simp
    also have "row_scan ?d 0 [] = run_lengths ?d"
      using 2 True by simp
    finally show ?thesis using True by simp
  qed
qed

lemma row_loop_map: "row_loop g acc = acc @ map run_lengths g"
  by (induction g arbitrary: acc) (simp_all add: row_scan_run_lengths)

lemma col_scan_row_scan:
  assumes "\<forall>row \<in> set rows. row < length sol \<and> col < length (sol ! row)"
  shows "col_scan sol col rows count col_hint =
         Inr (row_scan (map (\<lambda>row. sol ! row ! col) rows) count col_hint)"
  using assms
  by (induction rows arbitrary: count col_hint) (simp_all add: getitem_nat_def)

lemma col_scan_column:
  assumes "\<forall>r \<in> set sol. col < length r"
  shows "col_scan sol col [0..<length sol] 0 [] = Inr (run_lengths (column sol col))"
proof -
  have "map (\<lambda>row. sol ! row ! col) [0..<length sol] = column sol col"
    unfolding column_def by (rule nth_equalityI) simp_all
  then show ?thesis
    using col_scan_row_scan [of "[0..<length sol]" sol col 0 "[]"] assms
    by (simp add: row_scan_run_lengths)
qed

lemma col_loop_map:
  assumes "\<forall>col \<in> set cols. \<forall>r \<in> set sol. col < length r"
  shows "col_loop sol cols acc =
         Inr (acc @ map (\<lambda>col. run_lengths (column sol col)) cols)"
  using assms
  by (induction cols arbitrary: acc) (simp_all add: col_scan_column)

lemma determine_hints_run_lengths:
  assumes "rectangular sol"
  shows "determine_hints sol =
         Inr (map run_lengths (columns sol), map run_lengths sol)"
proof -
  from assms obtain row0 rest where sol: "sol = row0 # rest"
    by (cases sol) (auto simp: rectangular_def)
  have len: "\<forall>r \<in> set sol. length r = length row0"
    using assms sol by (simp add: rectangular_def list_all_iff)
  have "col_loop sol [0..<length row0] [] =
        Inr (map (\<lambda>col. run_lengths (column sol col)) [0..<length row0])"
    using col_loop_map [of "[0..<length row0]" sol "[]"] len by simp
  then show ?thesis
    using sol by (simp add: determine_hints_def getitem_nat_def columns_def row_loop_map)
qed

lemma run_lengths_gap: "run_lengths (replicate g 0 @ xs) = run_lengths xs"
  by (induction g) simp_all

lemma run_lengths_block:
  assumes "0 < h" "rest = [] \<or> hd rest \<noteq> 1"
  shows "run_lengths (replicate h 1 @ rest) = int h # run_lengths rest"
proof -
  from assms(1) obtain k where h: "h = Suc k" by (cases h) auto
  have tw: "takeWhile (\<lambda>c. c = (1::int)) (replicate k 1 @ rest) = replicate k 1"
    using assms(2) by (cases rest) (simp_all add: takeWhile_tail)
  have "dropWhile (\<lambda>c. c = (1::int)) (replicate k 1 @ rest) = dropWhile (\<lambda>c. c = 1) rest"
    by (rule dropWhile_append2) simp
  then have dw: "dropWhile (\<lambda>c. c = (1::int)) (replicate k 1 @ rest) = rest"
    using assms(2) by (cases rest) simp_all
  show ?thesis using tw dw by (simp add: h)
qed

lemma blocks_run_lengths: "blocks xs hs \<Longrightarrow> run_lengths xs = hs"
proof (induction rule: blocks.induct)
  case (gap g)
  show ?case using run_lengths_gap [of g "[]"] by simp
next
  case (run rest hs h g)
  then have "rest = [] \<or> hd rest \<noteq> 1" by auto
  with run show ?case
    by (simp add: run_lengths_gap run_lengths_block)
qed

lemma blocks_Cons0: "blocks xs hs \<Longrightarrow> blocks (0 # xs) hs"
proof (induction rule: blocks.cases)
  case (gap g)
  then show ?case using blocks.gap [of "Suc g"] by simp
next
  case (run rest hs' h g)
  then show ?case using blocks.run [of rest hs' h "Suc g"] by simp
qed

lemma run_lengths_blocks: "binary_line xs \<Longrightarrow> blocks xs (run_lengths xs)"
proof (induction xs rule: run_lengths.induct)
  case 1
  show ?case using blocks.gap [of 0] by simp
next
  case (2 x xs)
  show ?case
  proof (cases "x = 1")
    case False
    with 2 show ?thesis by (simp add: binary_line_def blocks_Cons0)
  next
    case True
    let ?t = "takeWhile (\<lambda>c. c = 1) (x # xs)" and ?d = "dropWhile (\<lambda>c. c = 1) xs"
    have ones: "?t = replicate (length ?t) 1"
      by (rule replicate_length_same [symmetric]) (auto dest: set_takeWhileD)
    have split: "x # xs = replicate (length ?t) 1 @ ?d"
      using ones takeWhile_dropWhile_id [of "\<lambda>c. c = 1" "x # xs"] True by simp
    have bin: "binary_line ?d"
      using "2.prems" by (auto simp: binary_line_def list_all_iff dest: set_dropWhileD)
    then have rest: "blocks ?d (run_lengths ?d)"
      using 2 True by simp
    have hd0: "?d = [] \<or> hd ?d = 0"
    proof (cases ?d)
      case Nil then show ?thesis by simp
    next
      case (Cons y ys)
      then have "y \<noteq> 1" using hd_dropWhile [of "\<lambda>c. c = 1" xs] by auto
      moreover have "y = 0 \<or> y = 1" using bin Cons by (simp add: binary_line_def)
      ultimately show ?thesis using Cons by simp
    qed
    have "blocks (replicate 0 0 @ replicate (length ?t) 1 @ ?d) (int (length ?t) # run_lengths ?d)"
      by (rule blocks.run [OF rest _ hd0]) (simp add: True)
    then show ?thesis using split True by simp
  qed
qed

lemma run_lengths_pos: "h \<in> set (run_lengths xs) \<Longrightarrow> 0 < h"
  by (induction xs rule: run_lengths.induct) (auto split: if_splits)

lemma sum_run_lengths: "sum_list (run_lengths xs) = int (filled_count xs)"
proof (induction xs rule: run_lengths.induct)
  case 1 show ?case by (simp add: filled_count_def)
next
  case (2 x xs)
  show ?case
  proof (cases "x = 1")
    case False with 2 show ?thesis by (simp add: filled_count_def)
  next
    case True
    let ?P = "\<lambda>c::int. c = 1"
    have "filter ?P xs = filter ?P (takeWhile ?P xs) @ filter ?P (dropWhile ?P xs)"
      using takeWhile_dropWhile_id [of ?P xs] filter_append by metis
    moreover have "filter ?P (takeWhile ?P xs) = takeWhile ?P xs"
      by (rule filter_True) (auto dest: set_takeWhileD)
    ultimately have "length (filter ?P xs) = length (takeWhile ?P xs) + length (filter ?P (dropWhile ?P xs))"
      by simp
    with 2 True show ?thesis by (simp add: filled_count_def)
  qed
qed

lemma filled_count_nth:
  "(\<Sum>j\<leftarrow>[0..<length r]. if r ! j = 1 then 1 else 0) = filled_count r"
proof -
  have "map (\<lambda>j. if r ! j = 1 then 1 else (0::nat)) [0..<length r] = map (\<lambda>c. if c = 1 then 1 else 0) r"
    by (rule nth_equalityI) simp_all
  moreover have "sum_list (map (\<lambda>c. if c = 1 then 1 else (0::nat)) r) = filled_count r"
    by (induction r) (simp_all add: filled_count_def)
  ultimately show ?thesis by simp
qed

lemma filled_rows_columns:
  assumes "\<forall>r \<in> set g. length r = n"
  shows "(\<Sum>r\<leftarrow>g. filled_count r) = (\<Sum>j\<leftarrow>[0..<n]. filled_count (column g j))"
  using assms
proof (induction g)
  case Nil
  show ?case by (simp add: column_def filled_count_def)
next
  case (Cons r g)
  have "(\<Sum>j\<leftarrow>[0..<n]. filled_count (column (r # g) j)) =
        (\<Sum>j\<leftarrow>[0..<n]. (if r ! j = 1 then 1 else 0) + filled_count (column g j))"
    by (rule arg_cong [where f = sum_list]) (simp add: column_def filled_count_def)
  also have "\<dots> = (\<Sum>j\<leftarrow>[0..<n]. if r ! j = 1 then 1 else 0) + (\<Sum>j\<leftarrow>[0..<n]. filled_count (column g j))"
    by (simp add: sum_list_addf)
  also have "(\<Sum>j\<leftarrow>[0..<n]. if r ! j = 1 then 1 else 0) = filled_count r"
    using Cons.prems filled_count_nth [of r] by simp
  finally show ?case using Cons by simp
qed

lemma run_lengths_no_filled: "1 \<notin> set xs \<Longrightarrow> run_lengths xs = []"
  by (induction xs) auto

lemma binary_column:
  assumes "binary g" "\<forall>r \<in> set g. j < length r"
  shows "binary_line (column g j)"
  using assms by (auto simp: binary_def binary_line_def column_def list_all_iff)

section \<open>Reading the grids inside their bounds\<close>

lemma py_index_nat: "i < length xs \<Longrightarrow> py_index xs (int i) = Inr i"
  by (simp add: py_index_def)

lemma cell_index_nat:
  "i < length g \<Longrightarrow> j < length (g ! i) \<Longrightarrow> cell_index g (int i) (int j) = Inr (i, j)"
  by (simp add: cell_index_def py_index_nat)

lemma getitem2_nat:
  "i < length g \<Longrightarrow> j < length (g ! i) \<Longrightarrow> getitem2 g (int i) (int j) = Inr (g ! i ! j)"
  by (simp add: getitem2_def cell_index_nat)

lemma well_formed_grid_row:
  "well_formed s \<Longrightarrow> i < n_rows s \<Longrightarrow> i < length (grid s) \<and> length (grid s ! i) = n_columns s"
  unfolding well_formed_def list_all_length by metis

lemma well_formed_solution_row:
  "well_formed s \<Longrightarrow> i < n_rows s \<Longrightarrow>
     i < length (solution s) \<and> n_columns s \<le> length (solution s ! i)"
  unfolding well_formed_def list_all_length by metis

lemma flip_index: "i < n \<Longrightarrow> int n - int i - 1 = int (n - 1 - i)"
  by linarith

lemma solution_cell:
  assumes "well_formed s" "i < n_rows s" "j < n_columns s"
  shows "getitem2 (solution s) (int (n_rows s) - int i - 1) (int j) =
         Inr (solution s ! (n_rows s - 1 - i) ! j)"
proof -
  have "n_rows s - 1 - i < n_rows s" using assms(2) by linarith
  from well_formed_solution_row [OF assms(1) this] assms(3)
  have "getitem2 (solution s) (int (n_rows s - 1 - i)) (int j) =
        Inr (solution s ! (n_rows s - 1 - i) ! j)"
    by (intro getitem2_nat) simp_all
  then show ?thesis using flip_index [OF assms(2)] by simp
qed

lemma grid_cell:
  assumes "well_formed s" "i < n_rows s" "j < n_columns s"
  shows "cell_index (grid s) (int i) (int j) = Inr (i, j)"
    and "getitem2 (grid s) (int i) (int j) = Inr (grid s ! i ! j)"
  using well_formed_grid_row [OF assms(1,2)] assms(3)
  by (simp_all add: cell_index_nat getitem2_nat)

lemma solution_filled_iff:
  assumes "well_formed s" "i < n_rows s" "j < n_columns s"
  shows "solution_filled s i j = (solution s ! (n_rows s - 1 - i) ! j = 1)"
  by (simp add: solution_filled_def solution_cell [OF assms])

lemma check_columns_iff:
  assumes "well_formed s" "i < n_rows s" "\<forall>j \<in> set js. j < n_columns s"
  shows "check_columns s i js =
         Inr (\<forall>j \<in> set js. solution_filled s i j \<longrightarrow> grid s ! i ! j = ''1'')"
  using assms(3)
proof (induction js)
  case Nil
  show ?case by simp
next
  case (Cons j js)
  then have j: "j < n_columns s" by simp
  show ?case
    using Cons solution_cell [OF assms(1,2) j] grid_cell(2) [OF assms(1,2) j]
    by (auto simp: solution_filled_def)
qed

lemma check_rows_iff:
  assumes "well_formed s" "\<forall>i \<in> set rows. i < n_rows s"
  shows "check_rows s rows =
         Inr (\<forall>i \<in> set rows. \<forall>j < n_columns s. solution_filled s i j \<longrightarrow> grid s ! i ! j = ''1'')"
  using assms(2)
proof (induction rows)
  case Nil
  show ?case by simp
next
  case (Cons i rows)
  then have i: "i < n_rows s" by simp
  have "check_columns s i [0..<n_columns s] =
        Inr (\<forall>j < n_columns s. solution_filled s i j \<longrightarrow> grid s ! i ! j = ''1'')"
    using check_columns_iff [OF assms(1) i, of "[0..<n_columns s]"] by (simp add: Ball_def)
  with Cons show ?case by auto
qed

lemma check_state_iff:
  assumes "well_formed s"
  shows "check_state s =
         Inr (\<forall>i < n_rows s. \<forall>j < n_columns s. solution_filled s i j \<longrightarrow> grid s ! i ! j = ''1'')"
  using check_rows_iff [OF assms, of "[0..<n_rows s]"] by (simp add: check_state_def Ball_def)

section \<open>The methods on a well-formed state\<close>

lemma finish_click_state [simp]: "fst (finish_click s shown) = s"
  by (simp add: finish_click_def split: sum.split)

lemma well_formed_set_cell [simp]: "well_formed (set_cell s i j v) = well_formed s"
proof -
  let ?g = "(grid s)[i := (grid s ! i)[j := v]]"
  have same: "map length ?g = map length (grid s)"
  proof (rule nth_equalityI)
    show "length (map length ?g) = length (map length (grid s))" by simp
  next
    fix k assume "k < length (map length ?g)"
    then show "map length ?g ! k = map length (grid s) ! k" by (cases "k = i") simp_all
  qed
  have "list_all (\<lambda>r. length r = n_columns s) g =
        list_all (\<lambda>l. l = n_columns s) (map length g)" for g :: "string list list"
    by (simp add: list_all_iff)
  then have "list_all (\<lambda>r. length r = n_columns s) ?g =
        list_all (\<lambda>r. length r = n_columns s) (grid s)"
    using same by simp
  then show ?thesis by (simp add: well_formed_def set_cell_def)
qed

lemma well_formed_tries [simp]: "well_formed (s\<lparr>tries_left := t\<rparr>) = well_formed s"
  by (simp add: well_formed_def)

lemma well_formed_hints [simp]:
  "well_formed (s\<lparr>column_hints := ch, row_hints := rh\<rparr>) = well_formed s"
  by (simp add: well_formed_def)

lemma well_formed_fresh [simp]: "well_formed (s\<lparr>grid := fresh_grid s\<rparr>) = 
   (solution s \<noteq> [] \<and> n_rows s = length (solution s) \<and> n_columns s = length (hd (solution s)) \<and>
      list_all (\<lambda>r. n_columns s \<le> length r) (solution s))"
  by (auto simp: well_formed_def fresh_grid_def list_all_iff)

lemma set_cell_fields [simp]:
  "solution (set_cell s i j v) = solution s"
  "n_rows (set_cell s i j v) = n_rows s"
  "n_columns (set_cell s i j v) = n_columns s"
  "tries_left (set_cell s i j v) = tries_left s"
  "column_hints (set_cell s i j v) = column_hints s"
  "row_hints (set_cell s i j v) = row_hints s"
  "grid (set_cell s i j v) = (grid s)[i := (grid s ! i)[j := v]]"
  by (simp_all add: set_cell_def)

lemma solution_filled_set_cell [simp]:
  "solution_filled (set_cell s i j v) a b = solution_filled s a b"
  by (simp add: solution_filled_def)

lemma solution_filled_tries [simp]:
  "solution_filled (s\<lparr>tries_left := t\<rparr>) a b = solution_filled s a b"
  by (simp add: solution_filled_def)

lemma grid_set_cell_nth:
  assumes "well_formed s" "i < n_rows s" "j < n_columns s" "a < n_rows s" "b < n_columns s"
  shows "grid (set_cell s i j v) ! a ! b = (if a = i \<and> b = j then v else grid s ! a ! b)"
  using well_formed_grid_row [OF assms(1,2)] well_formed_grid_row [OF assms(1,4)] assms(3,5)
  by (simp add: nth_list_update)

lemma col_scan_Inr:
  "col_scan sol col rows count col_hint = Inr res \<Longrightarrow>
     \<forall>row \<in> set rows. row < length sol \<and> col < length (sol ! row)"
  by (induction rows arbitrary: count col_hint)
     (auto simp: getitem_nat_def split: if_splits)

lemma col_loop_Inr:
  "col_loop sol cols acc = Inr res \<Longrightarrow> \<forall>col \<in> set cols. \<forall>r \<in> set sol. col < length r"
proof (induction cols arbitrary: acc)
  case Nil
  show ?case by simp
next
  case (Cons col cols)
  from Cons.prems obtain col_hint where
    scan: "col_scan sol col [0..<length sol] 0 [] = Inr col_hint" and
    rest: "col_loop sol cols (acc @ [col_hint]) = Inr res"
    by (auto split: sum.splits)
  have "\<forall>r \<in> set sol. col < length r"
    using col_scan_Inr [OF scan] by (auto simp: in_set_conv_nth)
  with Cons.IH [OF rest] show ?case by simp
qed

lemma determine_hints_Inr:
  assumes "determine_hints sol = Inr res"
  shows "sol \<noteq> [] \<and> list_all (\<lambda>r. length (hd sol) \<le> length r) sol"
proof -
  from assms obtain row0 rest where sol: "sol = row0 # rest"
    by (cases sol) (auto simp: determine_hints_def getitem_nat_def)
  from assms obtain ch where "col_loop sol [0..<length row0] [] = Inr ch"
    by (auto simp: determine_hints_def getitem_nat_def sol split: sum.splits)
  from col_loop_Inr [OF this] have "\<forall>r \<in> set sol. \<forall>col < length row0. col < length r"
    by auto
  then have "\<forall>r \<in> set sol. length row0 \<le> length r"
    by (meson leI less_irrefl)
  then show ?thesis by (simp add: sol list_all_iff)
qed

lemma determine_hints_total:
  assumes "sol \<noteq> []" "list_all (\<lambda>r. length (hd sol) \<le> length r) sol"
  shows "determine_hints sol =
         Inr (map (\<lambda>col. run_lengths (column sol col)) [0..<length (hd sol)], map run_lengths sol)"
proof -
  from assms(1) obtain row0 rest where sol: "sol = row0 # rest" by (cases sol) auto
  have "\<forall>col \<in> set [0..<length row0]. \<forall>r \<in> set sol. col < length r"
    using assms(2) unfolding sol list_all_iff by fastforce
  from col_loop_map [OF this, of "[]"] show ?thesis
    by (simp add: determine_hints_def getitem_nat_def sol row_loop_map)
qed

lemma restart_game_well_formed:
  assumes "well_formed s"
  shows "\<exists>ch rh. determine_hints (solution s) = Inr (ch, rh) \<and>
           restart_game MAX_TRIES s =
             (s\<lparr>grid := fresh_grid s, tries_left := MAX_TRIES, column_hints := ch, row_hints := rh\<rparr>,
              [TriesLabel MAX_TRIES, Draw], None)"
proof -
  have "solution s \<noteq> []" "list_all (\<lambda>r. length (hd (solution s)) \<le> length r) (solution s)"
    using assms unfolding well_formed_def by metis+
  from determine_hints_total [OF this] show ?thesis
    by (simp add: restart_game_def)
qed

lemma state_of_finish_click [simp]: "state_of (finish_click s shown) = s"
  by (simp add: state_of_def)

lemma finish_click_well_formed:
  assumes "well_formed s"
  shows "finish_click s shown =
         (s, shown @ [Draw] @
             (if check_state s = Inr True
              then [ShowInfo ''You won!''
                      ''Good job! You completed the nonogram! How about another one?'']
              else []), None)"
  using check_state_iff [OF assms] by (simp add: finish_click_def)

lemma right_click_cell:
  assumes "i < length (grid s)" "j < length (grid s ! i)"
  shows "right_click s (int j) (int i) =
         (if grid s ! i ! j = ''0'' then finish_click (set_cell s i j ''x'') []
          else if grid s ! i ! j = ''x'' then finish_click (set_cell s i j ''0'') []
          else finish_click s [])"
  by (simp add: right_click_def cell_index_nat [OF assms])

lemma on_click_secondary:
  "on_click MAX_TRIES s (secondary i j) = right_click s (int j) (int i)"
  by (simp add: on_click_def secondary_def)

lemma on_click_primary:
  "on_click MAX_TRIES s (primary i j) = left_click MAX_TRIES s (int j) (int i)"
  by (simp add: on_click_def primary_def)

lemma set_cell_twice:
  assumes "i < length (grid s)" "j < length (grid s ! i)"
  shows "set_cell (set_cell s i j v) i j (grid s ! i ! j) = s"
  using assms by (simp add: set_cell_def)

lemma left_click_cell:
  assumes "well_formed s" "i < n_rows s" "j < n_columns s"
  shows "left_click MAX_TRIES s (int j) (int i) =
         (if grid s ! i ! j = ''0'' then
            if solution_filled s i j then finish_click (set_cell s i j ''1'') []
            else if tries_left s - 1 = 0 then
              (case restart_game MAX_TRIES ((set_cell s i j ''x'')\<lparr>tries_left := 0\<rparr>) of
                 (s3, shown, exc) \<Rightarrow>
                   (s3, [TriesLabel 0, ShowInfo ''Game over''
                           ''You are out of tries, the game will now restart.''] @ shown, exc))
            else finish_click ((set_cell s i j ''x'')\<lparr>tries_left := tries_left s - 1\<rparr>)
                   [TriesLabel (tries_left s - 1), ShowInfo ''Mistake'' ''You made a mistake!'']
          else finish_click s [])"
  using grid_cell(1) [OF assms] solution_cell [OF assms]
  by (simp add: left_click_def solution_filled_def Let_def)

lemma demo_fields [simp]:
  "solution demo = [[1, 0, 0], [0, 1, 0]]" "n_columns demo = 3" "n_rows demo = 2"
  "grid demo = [[''0'', ''0'', ''0''], [''0'', ''0'', ''0'']]" "tries_left demo = 3"
  by (simp_all add: demo_def)

lemma demo_well_formed: "well_formed demo"
  by (simp add: well_formed_def)

lemma check_state_set_empty_cell:
  assumes "well_formed s" "i < n_rows s" "j < n_columns s" "\<not> solution_filled s i j"
  shows "check_state (set_cell s i j v) = check_state s"
proof -
  have wf': "well_formed (set_cell s i j v)" using assms(1) by simp
  have "grid (set_cell s i j v) ! a ! b = grid s ! a ! b"
    if "a < n_rows s" "b < n_columns s" "solution_filled s a b" for a b
    using grid_set_cell_nth [OF assms(1-3) that(1,2)] that(3) assms(4) by auto
  then show ?thesis
    using check_state_iff [OF wf'] check_state_iff [OF assms(1)] by simp
qed

lemma sum_list_int_map: "(\<Sum>x\<leftarrow>xs. int (f x)) = int (\<Sum>x\<leftarrow>xs. f x)"
  by (induction xs) simp_all

section \<open>Claims about the hint deriver\<close>

text \<open>
  C1. For every non-empty rectangular binary solution grid, \<open>determine_hints\<close>
  returns (columns first, rows second) for each row in row order and each column in
  column order exactly the run-length encoding of that line: the lengths of the maximal
  contiguous blocks of filled cells in scan order, left to right for rows and top to
  bottom for columns. Each returned sequence decomposes its line into gaps and blocks,
  and a line with no filled cell yields the empty sequence.
\<close>

theorem determine_hints_run_length_encoding:
  assumes "rectangular sol" and "binary sol"
  shows "determine_hints sol = Inr (map run_lengths (columns sol), map run_lengths sol) \<and>
         (\<forall>line \<in> set sol \<union> set (columns sol).
            blocks line (run_lengths line) \<and> (1 \<notin> set line \<longrightarrow> run_lengths line = []))"
proof -
  have rows: "\<forall>line \<in> set sol. binary_line line"
    using assms(2) by (simp add: binary_def list_all_iff)
  have len: "\<forall>r \<in> set sol. length r = length (hd sol)"
    using assms(1) unfolding rectangular_def list_all_iff by blast
  have cols: "\<forall>line \<in> set (columns sol). binary_line line"
    using binary_column [OF assms(2)] len by (auto simp: columns_def)
  show ?thesis
    using rows cols determine_hints_run_lengths [OF assms(1)]
    by (auto simp: run_lengths_blocks run_lengths_no_filled)
qed

theorem determine_hints_run_length_encoding_witness:
  "rectangular [[1, 1, 0, 1], [0, 1, 0, 1 :: int]] \<and> binary [[1, 1, 0, 1], [0, 1, 0, 1]] \<and>
   determine_hints [[1, 1, 0, 1], [0, 1, 0, 1]] = Inr ([[1], [2], [], [2]], [[2, 1], [1, 1]]) \<and>
   blocks [1, 1, 0, 1] [2, 1] \<and> blocks [0, 0] []"
proof -
  let ?g = "[[1, 1, 0, 1], [0, 1, 0, 1 :: int]]"
  have r: "rectangular ?g" by (simp add: rectangular_def)
  have b: "binary ?g" by (simp add: binary_def binary_line_def)
  have c: "columns ?g = [[1, 0], [1, 1], [0, 0], [1, 1]]"
    by (simp add: columns_def column_def upt_conv_Cons)
  have e: "run_lengths [1, 1, 0, 1] = [2, 1]" "run_lengths [0, 1, 0, 1] = [1, 1]"
    "run_lengths [1, 0] = [1]" "run_lengths [1, 1] = [2]" "run_lengths [0, 0] = []"
    by simp_all
  show ?thesis
    using determine_hints_run_length_encoding [OF r b] r b by (simp add: c e)
qed

text \<open>
  C10. For every non-empty rectangular grid, \<open>determine_hints\<close> returns one row
  hint sequence per grid row and one column hint sequence per grid column, every hint is
  strictly positive, the hints of each row (column) add up to the number of filled cells
  of that row (column), and so the grand total of the row hints equals the grand total
  of the column hints.
\<close>

theorem determine_hints_counts:
  assumes "rectangular sol"
  shows "\<exists>cols rows. determine_hints sol = Inr (cols, rows) \<and>
           length rows = length sol \<and> length cols = length (hd sol) \<and>
           (\<forall>hs \<in> set rows \<union> set cols. \<forall>h \<in> set hs. 0 < h) \<and>
           (\<forall>i < length sol. sum_list (rows ! i) = int (filled_count (sol ! i))) \<and>
           (\<forall>j < length (hd sol). sum_list (cols ! j) = int (filled_count (column sol j))) \<and>
           sum_list (map sum_list rows) = sum_list (map sum_list cols)"
proof -
  let ?rows = "map run_lengths sol" and ?cols = "map run_lengths (columns sol)"
  have len: "\<forall>r \<in> set sol. length r = length (hd sol)"
    using assms unfolding rectangular_def list_all_iff by blast
  have "sum_list (map sum_list ?rows) = int (\<Sum>r\<leftarrow>sol. filled_count r)"
    by (simp add: comp_def sum_run_lengths sum_list_int_map)
  also have "\<dots> = int (\<Sum>j\<leftarrow>[0..<length (hd sol)]. filled_count (column sol j))"
    using filled_rows_columns [of sol "length (hd sol)"] len by simp
  also have "\<dots> = sum_list (map sum_list ?cols)"
    by (simp add: comp_def sum_run_lengths columns_def sum_list_int_map)
  finally have total: "sum_list (map sum_list ?rows) = sum_list (map sum_list ?cols)" .
  have pos: "\<forall>hs \<in> set ?rows \<union> set ?cols. \<forall>h \<in> set hs. 0 < h"
    by (auto dest: run_lengths_pos)
  have "determine_hints sol = Inr (?cols, ?rows) \<and>
           length ?rows = length sol \<and> length ?cols = length (hd sol) \<and>
           (\<forall>hs \<in> set ?rows \<union> set ?cols. \<forall>h \<in> set hs. 0 < h) \<and>
           (\<forall>i < length sol. sum_list (?rows ! i) = int (filled_count (sol ! i))) \<and>
           (\<forall>j < length (hd sol). sum_list (?cols ! j) = int (filled_count (column sol j))) \<and>
           sum_list (map sum_list ?rows) = sum_list (map sum_list ?cols)"
    using determine_hints_run_lengths [OF assms] pos total
    by (simp add: sum_run_lengths columns_def)
  then show ?thesis by blast
qed

theorem determine_hints_counts_witness:
  "rectangular [[1, 1, 0, 1], [0, 1, 0, 1 :: int]] \<and>
   (\<exists>cols rows. determine_hints [[1, 1, 0, 1], [0, 1, 0, 1]] = Inr (cols, rows) \<and>
      length rows = 2 \<and> length cols = 4 \<and>
      sum_list (map sum_list rows) = sum_list (map sum_list cols))"
proof -
  have r: "rectangular [[1, 1, 0, 1], [0, 1, 0, 1 :: int]]" by (simp add: rectangular_def)
  show ?thesis
    using determine_hints_counts [OF r] r by auto
qed

section \<open>Claims about the game state machine\<close>

text \<open>
  C2. \<open>check_state\<close> is a function of the state alone and returns true exactly when
  every cell that the solution marks filled is \<open>"1"\<close> in the play grid, the play
  cell in row \<open>i\<close> being compared with the solution cell in row
  \<open>n_rows - i - 1\<close>. Cells over an empty solution cell are not examined: whatever
  is written there, the result is the same.
\<close>

theorem check_state_win:
  assumes "well_formed s"
  shows "check_state s =
           Inr (\<forall>i < n_rows s. \<forall>j < n_columns s.
                  solution s ! (n_rows s - 1 - i) ! j = 1 \<longrightarrow> grid s ! i ! j = ''1'') \<and>
         (\<forall>i < n_rows s. \<forall>j < n_columns s. \<forall>v.
            solution s ! (n_rows s - 1 - i) ! j \<noteq> 1 \<longrightarrow>
              check_state (set_cell s i j v) = check_state s)"
proof -
  have "check_state s =
           Inr (\<forall>i < n_rows s. \<forall>j < n_columns s.
                  solution s ! (n_rows s - 1 - i) ! j = 1 \<longrightarrow> grid s ! i ! j = ''1'')"
    using check_state_iff [OF assms] solution_filled_iff [OF assms] by simp
  moreover have "check_state (set_cell s i j v) = check_state s"
    if "i < n_rows s" "j < n_columns s" "solution s ! (n_rows s - 1 - i) ! j \<noteq> 1" for i j v
    using check_state_set_empty_cell [OF assms that(1,2)] solution_filled_iff [OF assms that(1,2)] that(3)
    by simp
  ultimately show ?thesis by blast
qed

theorem check_state_win_witness:
  "well_formed (demo\<lparr>grid := [[''x'', ''1'', ''0''], [''1'', ''0'', ''0'']]\<rparr>) \<and>
   check_state (demo\<lparr>grid := [[''x'', ''1'', ''0''], [''1'', ''0'', ''0'']]\<rparr>) = Inr True \<and>
   check_state demo = Inr False"
proof -
  let ?s = "demo\<lparr>grid := [[''x'', ''1'', ''0''], [''1'', ''0'', ''0'']]\<rparr>"
  have wf: "well_formed ?s" by (simp add: well_formed_def)
  have all2: "(\<forall>i<2. P i) = (P 0 \<and> P (Suc 0))" for P :: "nat \<Rightarrow> bool"
    by (auto simp: less_Suc_eq numeral_2_eq_2)
  have all3: "(\<forall>i<3. P i) = (P 0 \<and> P (Suc 0) \<and> P 2)" for P :: "nat \<Rightarrow> bool"
    by (auto simp: less_Suc_eq numeral_3_eq_3 numeral_2_eq_2)
  show ?thesis
    using check_state_win [OF wf] check_state_win [OF demo_well_formed] wf
    by (simp add: all2 all3)
qed

text \<open>
  C9. A primary click on a cell that is already filled or already crossed changes
  nothing: the whole state (every cell of the play grid, the tries counter, the
  solution and the hints) is the state before the click, and the click returns.
\<close>

theorem primary_click_on_marked_cell:
  assumes "well_formed s" "i < n_rows s" "j < n_columns s"
    and "grid s ! i ! j = ''1'' \<or> grid s ! i ! j = ''x''"
  shows "state_of (on_click MAX_TRIES s (primary i j)) = s \<and>
         raised_by (on_click MAX_TRIES s (primary i j)) = None"
proof -
  have "grid s ! i ! j \<noteq> ''0''" using assms(4) by auto
  then have "on_click MAX_TRIES s (primary i j) = finish_click s []"
    using left_click_cell [OF assms(1-3)] by (simp add: on_click_primary)
  then show ?thesis
    by (simp add: finish_click_well_formed [OF assms(1)] raised_by_def state_of_def)
qed

theorem primary_click_on_marked_cell_witness:
  "well_formed (demo\<lparr>grid := [[''x'', ''1'', ''0''], [''1'', ''0'', ''0'']]\<rparr>) \<and>
   state_of (on_click 3 (demo\<lparr>grid := [[''x'', ''1'', ''0''], [''1'', ''0'', ''0'']]\<rparr>) (primary 0 0)) =
     demo\<lparr>grid := [[''x'', ''1'', ''0''], [''1'', ''0'', ''0'']]\<rparr> \<and>
   state_of (on_click 3 (demo\<lparr>grid := [[''x'', ''1'', ''0''], [''1'', ''0'', ''0'']]\<rparr>) (primary 0 1)) =
     demo\<lparr>grid := [[''x'', ''1'', ''0''], [''1'', ''0'', ''0'']]\<rparr>"
proof -
  let ?s = "demo\<lparr>grid := [[''x'', ''1'', ''0''], [''1'', ''0'', ''0'']]\<rparr>"
  have wf: "well_formed ?s" by (simp add: well_formed_def)
  show ?thesis
    using primary_click_on_marked_cell [OF wf, of 0 0 3]
      primary_click_on_marked_cell [OF wf, of 0 1 3] wf
    by simp
qed

text \<open>
  C6. A secondary click turns an unmarked cell into a crossed one and a crossed cell
  into an unmarked one, and leaves a filled cell alone; it never changes the tries
  counter nor the solution, its effect on the grid is the same whatever the solution is,
  and two secondary clicks on the same cell give back the state before the first.
\<close>

theorem secondary_click_toggle:
  assumes "i < length (grid s)" "j < length (grid s ! i)"
  shows "state_of (on_click MAX_TRIES s (secondary i j)) =
           (if grid s ! i ! j = ''0'' then set_cell s i j ''x''
            else if grid s ! i ! j = ''x'' then set_cell s i j ''0''
            else s) \<and>
         tries_left (state_of (on_click MAX_TRIES s (secondary i j))) = tries_left s \<and>
         solution (state_of (on_click MAX_TRIES s (secondary i j))) = solution s \<and>
         (\<forall>sol. grid (state_of (on_click MAX_TRIES (s\<lparr>solution := sol\<rparr>) (secondary i j))) =
                grid (state_of (on_click MAX_TRIES s (secondary i j)))) \<and>
         state_of (on_click MAX_TRIES (state_of (on_click MAX_TRIES s (secondary i j))) (secondary i j)) = s"
proof -
  let ?c = "grid s ! i ! j"
  have one: "state_of (on_click MAX_TRIES s (secondary i j)) =
           (if ?c = ''0'' then set_cell s i j ''x''
            else if ?c = ''x'' then set_cell s i j ''0'' else s)"
    by (simp add: on_click_secondary right_click_cell [OF assms])
  have other: "state_of (on_click MAX_TRIES (s\<lparr>solution := sol\<rparr>) (secondary i j)) =
           (if ?c = ''0'' then set_cell (s\<lparr>solution := sol\<rparr>) i j ''x''
            else if ?c = ''x'' then set_cell (s\<lparr>solution := sol\<rparr>) i j ''0''
            else s\<lparr>solution := sol\<rparr>)" for sol
    using assms by (simp add: on_click_secondary right_click_cell)
  have again: "state_of (on_click MAX_TRIES (set_cell s i j v) (secondary i j)) =
           (if v = ''0'' then set_cell (set_cell s i j v) i j ''x''
            else if v = ''x'' then set_cell (set_cell s i j v) i j ''0''
            else set_cell s i j v)" for v
    using assms by (simp add: on_click_secondary right_click_cell)
  have twice: "state_of (on_click MAX_TRIES (state_of (on_click MAX_TRIES s (secondary i j))) (secondary i j)) = s"
  proof (cases "?c = ''0''")
    case True
    then show ?thesis using set_cell_twice [OF assms, of "''x''"] by (simp add: one again)
  next
    case False
    show ?thesis
    proof (cases "?c = ''x''")
      case True
      then show ?thesis using set_cell_twice [OF assms, of "''0''"] by (simp add: one again)
    next
      case False
      with \<open>?c \<noteq> ''0''\<close> show ?thesis by (simp add: one)
    qed
  qed
  show ?thesis
    using twice by (simp add: one other)
qed

theorem secondary_click_toggle_witness:
  "state_of (on_click 3 demo (secondary 0 0)) =
     demo\<lparr>grid := [[''x'', ''0'', ''0''], [''0'', ''0'', ''0'']]\<rparr> \<and>
   state_of (on_click 3 (state_of (on_click 3 demo (secondary 0 0))) (secondary 0 0)) = demo"
proof -
  have b: "0 < length (grid demo)" "0 < length (grid demo ! 0)" by simp_all
  from secondary_click_toggle [OF b, of 3]
  have "state_of (on_click 3 demo (secondary 0 0)) = set_cell demo 0 0 ''x''"
    and "state_of (on_click 3 (state_of (on_click 3 demo (secondary 0 0))) (secondary 0 0)) = demo"
    by (simp, blast)
  then show ?thesis by (simp add: set_cell_def)
qed

lemma outcome_parts [simp]:
  "state_of (s, shown, exc) = s" "shown_by (s, shown, exc) = shown" "raised_by (s, shown, exc) = exc"
  by (simp_all add: state_of_def shown_by_def raised_by_def)

lemma restart_after_last_try:
  assumes "well_formed s" "determine_hints (solution s) = Inr (ch, rh)"
  shows "restart_game MAX_TRIES ((set_cell s i j v)\<lparr>tries_left := t\<rparr>) =
           (s\<lparr>grid := fresh_grid s, tries_left := MAX_TRIES, column_hints := ch, row_hints := rh\<rparr>,
            [TriesLabel MAX_TRIES, Draw], None)"
  using assms(2) by (simp add: restart_game_def set_cell_def fresh_grid_def)

lemma mistake_click:
  assumes "well_formed s" "i < n_rows s" "j < n_columns s"
    and "grid s ! i ! j = ''0''" "\<not> solution_filled s i j" "tries_left s - 1 \<noteq> 0"
  shows "on_click MAX_TRIES s (primary i j) =
           ((set_cell s i j ''x'')\<lparr>tries_left := tries_left s - 1\<rparr>,
            [TriesLabel (tries_left s - 1), ShowInfo ''Mistake'' ''You made a mistake!'', Draw] @
              (if check_state ((set_cell s i j ''x'')\<lparr>tries_left := tries_left s - 1\<rparr>) = Inr True
               then [ShowInfo ''You won!''
                       ''Good job! You completed the nonogram! How about another one?'']
               else []),
            None)"
proof -
  have wf: "well_formed ((set_cell s i j ''x'')\<lparr>tries_left := tries_left s - 1\<rparr>)"
    using assms(1) by simp
  show ?thesis
    using assms(4-6) left_click_cell [OF assms(1-3), of MAX_TRIES]
    by (simp add: on_click_primary finish_click_well_formed [OF wf])
qed

lemma last_mistake_click:
  assumes "well_formed s" "i < n_rows s" "j < n_columns s"
    and "grid s ! i ! j = ''0''" "\<not> solution_filled s i j" "tries_left s - 1 = 0"
    and "determine_hints (solution s) = Inr (ch, rh)"
  shows "on_click MAX_TRIES s (primary i j) =
           (s\<lparr>grid := fresh_grid s, tries_left := MAX_TRIES, column_hints := ch, row_hints := rh\<rparr>,
            [TriesLabel 0, ShowInfo ''Game over'' ''You are out of tries, the game will now restart.'',
             TriesLabel MAX_TRIES, Draw],
            None)"
  using assms(4-6) left_click_cell [OF assms(1-3), of MAX_TRIES]
  by (simp add: on_click_primary restart_after_last_try [OF assms(1,7)])


lemma three_mistakes:
  assumes wf: "well_formed s" and t: "tries_left s = 3"
    and c1: "i1 < n_rows s" "j1 < n_columns s" "grid s ! i1 ! j1 = ''0''" "\<not> solution_filled s i1 j1"
    and c2: "i2 < n_rows s" "j2 < n_columns s" "grid s ! i2 ! j2 = ''0''" "\<not> solution_filled s i2 j2"
    and c3: "i3 < n_rows s" "j3 < n_columns s" "grid s ! i3 ! j3 = ''0''" "\<not> solution_filled s i3 j3"
    and d: "(i1, j1) \<noteq> (i2, j2)" "(i1, j1) \<noteq> (i3, j3)" "(i2, j2) \<noteq> (i3, j3)"
  shows "tries_left (run_clicks 3 s [primary i1 j1]) = 2 \<and>
         tries_left (run_clicks 3 s [primary i1 j1, primary i2 j2]) = 1 \<and>
         grid (run_clicks 3 s [primary i1 j1, primary i2 j2, primary i3 j3]) = fresh_grid s \<and>
         tries_left (run_clicks 3 s [primary i1 j1, primary i2 j2, primary i3 j3]) = 3 \<and>
         shown_by (on_click 3 (run_clicks 3 s [primary i1 j1, primary i2 j2]) (primary i3 j3)) =
           [TriesLabel 0, ShowInfo ''Game over'' ''You are out of tries, the game will now restart.'',
            TriesLabel 3, Draw]"
proof -
  define s1 where "s1 = (set_cell s i1 j1 ''x'')\<lparr>tries_left := 2\<rparr>"
  define s2 where "s2 = (set_cell s1 i2 j2 ''x'')\<lparr>tries_left := 1\<rparr>"
  have wf1: "well_formed s1" using wf by (simp add: s1_def)
  have wf2: "well_formed s2" using wf1 by (simp add: s2_def)
  have dims: "n_rows s1 = n_rows s" "n_columns s1 = n_columns s" "solution s1 = solution s"
    "n_rows s2 = n_rows s" "n_columns s2 = n_columns s" "solution s2 = solution s"
    by (simp_all add: s1_def s2_def)
  have filled: "solution_filled s1 a b = solution_filled s a b"
    "solution_filled s2 a b = solution_filled s a b" for a b
    by (simp_all add: solution_filled_def dims)
  have g1: "grid s1 ! a ! b = (if a = i1 \<and> b = j1 then ''x'' else grid s ! a ! b)"
    if "a < n_rows s" "b < n_columns s" for a b
    using grid_set_cell_nth [OF wf c1(1,2) that] by (simp add: s1_def)
  have g2: "grid s2 ! a ! b = (if a = i2 \<and> b = j2 then ''x'' else grid s1 ! a ! b)"
    if "a < n_rows s" "b < n_columns s" for a b
    using grid_set_cell_nth [OF wf1, of i2 j2 a b] c2(1,2) that by (simp add: s2_def dims)
  have step1: "state_of (on_click 3 s (primary i1 j1)) = s1"
    using mistake_click [OF wf c1, of 3] t by (simp add: s1_def state_of_def)
  have "grid s1 ! i2 ! j2 = ''0''"
    using g1 [OF c2(1,2)] c2(3) d(1) by auto
  then have step2: "state_of (on_click 3 s1 (primary i2 j2)) = s2"
    using mistake_click [OF wf1, of i2 j2 3] c2 by (simp add: s2_def state_of_def dims filled s1_def)
  have "grid s2 ! i3 ! j3 = ''0''"
    using g2 [OF c3(1,2)] g1 [OF c3(1,2)] c3(3) d(2,3) by auto
  moreover obtain ch rh where hints: "determine_hints (solution s2) = Inr (ch, rh)"
    using restart_game_well_formed [OF wf2] by blast
  ultimately have step3: "on_click 3 s2 (primary i3 j3) =
      (s2\<lparr>grid := fresh_grid s2, tries_left := 3, column_hints := ch, row_hints := rh\<rparr>,
       [TriesLabel 0, ShowInfo ''Game over'' ''You are out of tries, the game will now restart.'',
        TriesLabel 3, Draw], None)"
    using last_mistake_click [OF wf2, of i3 j3 ch rh 3] c3
    by (simp add: dims filled s2_def)
  have fresh: "fresh_grid s2 = fresh_grid s" by (simp add: fresh_grid_def dims)
  show ?thesis
    by (simp add: step1 step2 step3 fresh) (simp add: s1_def s2_def)
qed

text \<open>
  C3, as the code has it. A primary click on an unmarked cell whose solution cell is
  empty crosses the cell and takes exactly one try. While tries remain, the label is
  updated, the mistake dialog is shown and the grid is drawn. When the counter
  reaches 0, the same click shows the label, then the game-over dialog (in place of the
  mistake dialog) and then restarts: the play grid is all unmarked, the counter is back
  at \<open>MAX_TRIES\<close>, the solution is kept. With \<open>MAX_TRIES = 3\<close>, three
  mistaken clicks on three distinct wrong unmarked cells take the counter from 3 to 2,
  to 1, and through 0 to the restart.
\<close>

theorem mistaken_primary_click:
  assumes "well_formed s" "i < n_rows s" "j < n_columns s"
    and "grid s ! i ! j = ''0''" "solution s ! (n_rows s - 1 - i) ! j \<noteq> 1"
  shows "(tries_left s - 1 \<noteq> 0 \<longrightarrow>
            state_of (on_click MAX_TRIES s (primary i j)) =
              (set_cell s i j ''x'')\<lparr>tries_left := tries_left s - 1\<rparr> \<and>
            take 3 (shown_by (on_click MAX_TRIES s (primary i j))) =
              [TriesLabel (tries_left s - 1), ShowInfo ''Mistake'' ''You made a mistake!'', Draw] \<and>
            raised_by (on_click MAX_TRIES s (primary i j)) = None) \<and>
         (tries_left s - 1 = 0 \<longrightarrow>
            grid (state_of (on_click MAX_TRIES s (primary i j))) = fresh_grid s \<and>
            tries_left (state_of (on_click MAX_TRIES s (primary i j))) = MAX_TRIES \<and>
            solution (state_of (on_click MAX_TRIES s (primary i j))) = solution s \<and>
            shown_by (on_click MAX_TRIES s (primary i j)) =
              [TriesLabel 0,
               ShowInfo ''Game over'' ''You are out of tries, the game will now restart.'',
               TriesLabel MAX_TRIES, Draw] \<and>
            raised_by (on_click MAX_TRIES s (primary i j)) = None) \<and>
         (\<forall>i2 j2 i3 j3.
            MAX_TRIES = 3 \<and> tries_left s = 3 \<and>
            i2 < n_rows s \<and> j2 < n_columns s \<and> grid s ! i2 ! j2 = ''0'' \<and>
            solution s ! (n_rows s - 1 - i2) ! j2 \<noteq> 1 \<and>
            i3 < n_rows s \<and> j3 < n_columns s \<and> grid s ! i3 ! j3 = ''0'' \<and>
            solution s ! (n_rows s - 1 - i3) ! j3 \<noteq> 1 \<and>
            (i, j) \<noteq> (i2, j2) \<and> (i, j) \<noteq> (i3, j3) \<and> (i2, j2) \<noteq> (i3, j3) \<longrightarrow>
            tries_left (run_clicks MAX_TRIES s [primary i j]) = 2 \<and>
            tries_left (run_clicks MAX_TRIES s [primary i j, primary i2 j2]) = 1 \<and>
            grid (run_clicks MAX_TRIES s [primary i j, primary i2 j2, primary i3 j3]) = fresh_grid s \<and>
            tries_left (run_clicks MAX_TRIES s [primary i j, primary i2 j2, primary i3 j3]) = 3)"
proof -
  have wrong: "\<not> solution_filled s i j"
    using assms(5) solution_filled_iff [OF assms(1-3)] by simp
  have one: "tries_left s - 1 \<noteq> 0 \<longrightarrow>
            state_of (on_click MAX_TRIES s (primary i j)) =
              (set_cell s i j ''x'')\<lparr>tries_left := tries_left s - 1\<rparr> \<and>
            take 3 (shown_by (on_click MAX_TRIES s (primary i j))) =
              [TriesLabel (tries_left s - 1), ShowInfo ''Mistake'' ''You made a mistake!'', Draw] \<and>
            raised_by (on_click MAX_TRIES s (primary i j)) = None"
    using mistake_click [OF assms(1-4) wrong, of MAX_TRIES]
    by (simp add: state_of_def shown_by_def raised_by_def)
  obtain ch rh where hints: "determine_hints (solution s) = Inr (ch, rh)"
    using restart_game_well_formed [OF assms(1)] by blast
  have last: "tries_left s - 1 = 0 \<longrightarrow>
            grid (state_of (on_click MAX_TRIES s (primary i j))) = fresh_grid s \<and>
            tries_left (state_of (on_click MAX_TRIES s (primary i j))) = MAX_TRIES \<and>
            solution (state_of (on_click MAX_TRIES s (primary i j))) = solution s \<and>
            shown_by (on_click MAX_TRIES s (primary i j)) =
              [TriesLabel 0,
               ShowInfo ''Game over'' ''You are out of tries, the game will now restart.'',
               TriesLabel MAX_TRIES, Draw] \<and>
            raised_by (on_click MAX_TRIES s (primary i j)) = None"
    using last_mistake_click [OF assms(1-4) wrong _ hints, of MAX_TRIES]
    by (simp add: state_of_def shown_by_def raised_by_def)
  have three: "tries_left (run_clicks MAX_TRIES s [primary i j]) = 2 \<and>
            tries_left (run_clicks MAX_TRIES s [primary i j, primary i2 j2]) = 1 \<and>
            grid (run_clicks MAX_TRIES s [primary i j, primary i2 j2, primary i3 j3]) = fresh_grid s \<and>
            tries_left (run_clicks MAX_TRIES s [primary i j, primary i2 j2, primary i3 j3]) = 3"
    if "MAX_TRIES = 3" "tries_left s = 3"
      "i2 < n_rows s" "j2 < n_columns s" "grid s ! i2 ! j2 = ''0''"
      "solution s ! (n_rows s - 1 - i2) ! j2 \<noteq> 1"
      "i3 < n_rows s" "j3 < n_columns s" "grid s ! i3 ! j3 = ''0''"
      "solution s ! (n_rows s - 1 - i3) ! j3 \<noteq> 1"
      "(i, j) \<noteq> (i2, j2)" "(i, j) \<noteq> (i3, j3)" "(i2, j2) \<noteq> (i3, j3)" for i2 j2 i3 j3
  proof -
    have w2: "\<not> solution_filled s i2 j2"
      using that(6) solution_filled_iff [OF assms(1) that(3,4)] by simp
    have w3: "\<not> solution_filled s i3 j3"
      using that(10) solution_filled_iff [OF assms(1) that(7,8)] by simp
    show ?thesis
      using three_mistakes [OF assms(1) that(2) assms(2-4) wrong that(3-5) w2 that(7-9) w3 that(11-13)]
      unfolding that(1) by blast
  qed
  show ?thesis
    using one last three by blast
qed


lemma demo_cells:
  "\<not> solution_filled demo 0 0" "solution_filled demo 0 1" "\<not> solution_filled demo 0 2"
  "solution_filled demo 1 0" "\<not> solution_filled demo 1 1" "\<not> solution_filled demo 1 2"
  by (simp_all add: solution_filled_iff [OF demo_well_formed])

theorem mistaken_primary_click_witness:
  "well_formed demo \<and> grid demo ! 0 ! 0 = ''0'' \<and> solution demo ! (n_rows demo - 1 - 0) ! 0 \<noteq> 1 \<and>
   state_of (on_click 3 demo (primary 0 0)) =
     demo\<lparr>grid := [[''x'', ''0'', ''0''], [''0'', ''0'', ''0'']], tries_left := 2\<rparr> \<and>
   grid (run_clicks 3 demo [primary 0 0, primary 0 2, primary 1 1]) =
     [[''0'', ''0'', ''0''], [''0'', ''0'', ''0'']] \<and>
   tries_left (run_clicks 3 demo [primary 0 0, primary 0 2, primary 1 1]) = 3 \<and>
   tries_left (state_of (on_click 3 (demo\<lparr>tries_left := 1\<rparr>) (primary 0 0))) = 3"
proof -
  have h: "0 < n_rows demo" "0 < n_columns demo" "grid demo ! 0 ! 0 = ''0''"
    "solution demo ! (n_rows demo - 1 - 0) ! 0 \<noteq> 1"
    by simp_all
  note first = mistaken_primary_click [OF demo_well_formed h, of 3]
  have one: "state_of (on_click 3 demo (primary 0 0)) = (set_cell demo 0 0 ''x'')\<lparr>tries_left := 2\<rparr>"
    using first by simp
  have "tries_left (run_clicks 3 demo [primary 0 0, primary 0 2, primary 1 1]) = 3 \<and>
        grid (run_clicks 3 demo [primary 0 0, primary 0 2, primary 1 1]) = fresh_grid demo"
    using first [THEN conjunct2, THEN conjunct2, rule_format, of 0 2 1 1] by simp
  moreover
  let ?s = "demo\<lparr>tries_left := 1\<rparr>"
  have wf: "well_formed ?s" using demo_well_formed by simp
  have h': "0 < n_rows ?s" "0 < n_columns ?s" "grid ?s ! 0 ! 0 = ''0''"
    "solution ?s ! (n_rows ?s - 1 - 0) ! 0 \<noteq> 1"
    by simp_all
  have "tries_left (state_of (on_click 3 ?s (primary 0 0))) = 3"
    using mistaken_primary_click [OF wf h', of 3] by simp
  ultimately show ?thesis
    using demo_well_formed one by (simp add: fresh_grid_def set_cell_def numeral_3_eq_3 numeral_2_eq_2)
qed

text \<open>
  C3 as stated fails on the effects of the click that uses the last try: after two
  mistakes on the small game, the third mistaken click shows the tries label, the
  game-over dialog, and the restart's label and drawing; the mistake dialog is not
  among them.
\<close>

theorem last_mistake_shows_no_mistake_dialog:
  "shown_by (on_click 3 (run_clicks 3 demo [primary 0 0, primary 0 2]) (primary 1 1)) =
     [TriesLabel 0, ShowInfo ''Game over'' ''You are out of tries, the game will now restart.'',
      TriesLabel 3, Draw] \<and>
   ShowInfo ''Mistake'' ''You made a mistake!'' \<notin>
     set (shown_by (on_click 3 (run_clicks 3 demo [primary 0 0, primary 0 2]) (primary 1 1)))"
proof -
  have "shown_by (on_click 3 (run_clicks 3 demo [primary 0 0, primary 0 2]) (primary 1 1)) =
     [TriesLabel 0, ShowInfo ''Game over'' ''You are out of tries, the game will now restart.'',
      TriesLabel 3, Draw]"
    using three_mistakes [OF demo_well_formed, of 0 0 0 2 1 1] demo_cells by simp
  then show ?thesis by simp
qed

lemma parse_tokens_error: "parse_tokens to_int xs = Inl e \<Longrightarrow> e = ValueError"
  by (induction xs arbitrary: e) (auto split: option.splits sum.splits)

lemma parse_lines_error: "parse_lines to_int ls acc = Inl e \<Longrightarrow> e = ValueError"
  by (induction ls arbitrary: acc) (auto split: sum.splits dest: parse_tokens_error)

lemma get_solution_error:
  "get_solution to_int files n = Inl e \<Longrightarrow>
     (e = FileNotFoundError \<and> files (puzzle_path n) = None) \<or>
     (e = ValueError \<and> files (puzzle_path n) \<noteq> None)"
  by (auto simp: get_solution_def split: option.splits dest: parse_lines_error)

lemma col_scan_error: "col_scan sol col rows count col_hint = Inl e \<Longrightarrow> e = IndexError"
  by (induction rows arbitrary: count col_hint)
     (auto simp: getitem_nat_def split: if_splits)

lemma col_loop_error: "col_loop sol cols acc = Inl e \<Longrightarrow> e = IndexError"
  by (induction cols arbitrary: acc) (auto split: sum.splits dest: col_scan_error)

lemma determine_hints_error: "determine_hints sol = Inl e \<Longrightarrow> e = IndexError"
  by (auto simp: determine_hints_def getitem_nat_def split: if_splits sum.splits dest: col_loop_error)

lemma restart_game_outcome:
  "raised_by (restart_game MAX_TRIES s) \<noteq> Some FileNotFoundError \<and>
   ShowError a b \<notin> set (shown_by (restart_game MAX_TRIES s))"
  by (auto simp: restart_game_def Let_def split: sum.splits dest: determine_hints_error)

lemma except_not_found_cases:
  "except_not_found (s, shown, exc) =
     (if exc = Some FileNotFoundError
      then (s, shown @ [ShowError ''Error'' ''Puzzle file not found.''], None)
      else (s, shown, exc))"
  by (auto simp: except_not_found_def split: option.splits error.splits)

lemma load_puzzle_missing:
  assumes "files (puzzle_path n) = None"
  shows "load_puzzle MAX_TRIES to_int files s n =
         (s, [ShowError ''Error'' ''Puzzle file not found.''], None)"
  using assms by (simp add: load_puzzle_def get_solution_def except_not_found_cases)

lemma load_puzzle_present:
  assumes "files (puzzle_path n) \<noteq> None"
  shows "ShowError a b \<notin> set (shown_by (load_puzzle MAX_TRIES to_int files s n))"
proof (cases "get_solution to_int files n")
  case (Inl e)
  with assms have "e = ValueError" using get_solution_error [of to_int files n e] by auto
  with Inl show ?thesis by (simp add: load_puzzle_def except_not_found_cases)
next
  case (Inr sol)
  show ?thesis
  proof (cases sol)
    case Nil
    with Inr show ?thesis
      by (simp add: load_puzzle_def getitem_nat_def except_not_found_cases)
  next
    case (Cons row0 rest)
    let ?s3 = "s\<lparr>solution := sol, n_columns := length row0, n_rows := length sol\<rparr>"
    obtain s' shown exc where r: "restart_game MAX_TRIES ?s3 = (s', shown, exc)"
      by (cases "restart_game MAX_TRIES ?s3") auto
    from restart_game_outcome [of MAX_TRIES ?s3 a b] r
    have "exc \<noteq> Some FileNotFoundError" "ShowError a b \<notin> set shown" by simp_all
    with Inr Cons r show ?thesis
      by (simp add: load_puzzle_def getitem_nat_def except_not_found_cases Let_def)
  qed
qed

text \<open>
  C4. When the puzzle number names no stored file, \<open>load_puzzle\<close> reports it
  with the "Puzzle file not found." error dialog and changes nothing: the state after
  the call is the state before it (solution, play grid, tries counter, dimensions and
  hints). The missing file is the only case in which \<open>load_puzzle\<close> reports a
  failure: the error dialog is shown exactly when the path has no file.
\<close>

theorem load_puzzle_not_found:
  "(files (puzzle_path n) = None \<longrightarrow>
      load_puzzle MAX_TRIES to_int files s n =
        (s, [ShowError ''Error'' ''Puzzle file not found.''], None)) \<and>
   (ShowError ''Error'' ''Puzzle file not found.'' \<in>
      set (shown_by (load_puzzle MAX_TRIES to_int files s n))) =
     (files (puzzle_path n) = None)"
proof (cases "files (puzzle_path n) = None")
  case True
  then show ?thesis using load_puzzle_missing [of files n MAX_TRIES to_int s] by simp
next
  case False
  then show ?thesis
    using load_puzzle_present [of files n "''Error''" "''Puzzle file not found.''" MAX_TRIES to_int s]
    by auto
qed

theorem load_puzzle_not_found_witness:
  "Map.empty (puzzle_path 7) = None \<and>
   load_puzzle 3 (\<lambda>t. None) Map.empty (demo\<lparr>grid := [[''x'', ''1'', ''0''], [''1'', ''0'', ''0'']], tries_left := 2\<rparr>) 7 =
     (demo\<lparr>grid := [[''x'', ''1'', ''0''], [''1'', ''0'', ''0'']], tries_left := 2\<rparr>,
      [ShowError ''Error'' ''Puzzle file not found.''], None)"
  using load_puzzle_not_found [of Map.empty 7 3 "\<lambda>t. None"
      "demo\<lparr>grid := [[''x'', ''1'', ''0''], [''1'', ''0'', ''0'']], tries_left := 2\<rparr>"]
  by simp

lemma in_bounds_nat:
  assumes "in_bounds s event"
  shows "nat (ydata event) < n_rows s \<and> nat (xdata event) < n_columns s \<and>
         ydata event = int (nat (ydata event)) \<and> xdata event = int (nat (xdata event))"
  using assms by (auto simp: in_bounds_def)

lemma state_of_restart_game:
  assumes "well_formed s"
  shows "\<exists>ch rh. state_of (restart_game MAX_TRIES s) =
           s\<lparr>grid := fresh_grid s, tries_left := MAX_TRIES, column_hints := ch, row_hints := rh\<rparr>"
proof -
  obtain ch rh where "restart_game MAX_TRIES s =
             (s\<lparr>grid := fresh_grid s, tries_left := MAX_TRIES, column_hints := ch, row_hints := rh\<rparr>,
              [TriesLabel MAX_TRIES, Draw], None)"
    using restart_game_well_formed [OF assms, of MAX_TRIES] by blast
  then show ?thesis by (intro exI [of _ ch] exI [of _ rh]) simp
qed

lemma on_click_state:
  assumes "well_formed s" "in_bounds s event"
  shows "state_of (on_click MAX_TRIES s event) =
     (if button event = 1 then
        (if grid s ! nat (ydata event) ! nat (xdata event) = ''0'' then
           (if solution_filled s (nat (ydata event)) (nat (xdata event))
            then set_cell s (nat (ydata event)) (nat (xdata event)) ''1''
            else if tries_left s - 1 = 0 then state_of (restart_game MAX_TRIES s)
            else (set_cell s (nat (ydata event)) (nat (xdata event)) ''x'')\<lparr>tries_left := tries_left s - 1\<rparr>)
         else s)
      else if button event = 3 then
        (if grid s ! nat (ydata event) ! nat (xdata event) = ''0''
         then set_cell s (nat (ydata event)) (nat (xdata event)) ''x''
         else if grid s ! nat (ydata event) ! nat (xdata event) = ''x''
         then set_cell s (nat (ydata event)) (nat (xdata event)) ''0''
         else s)
      else s)"
proof -
  define i where "i = nat (ydata event)"
  define j where "j = nat (xdata event)"
  have b: "i < n_rows s" "j < n_columns s" and xy: "ydata event = int i" "xdata event = int j"
    using in_bounds_nat [OF assms(2)] by (simp_all add: i_def j_def)
  have g: "i < length (grid s)" "j < length (grid s ! i)"
    using well_formed_grid_row [OF assms(1) b(1)] b(2) by simp_all
  obtain ch rh where hints: "determine_hints (solution s) = Inr (ch, rh)"
    and r: "restart_game MAX_TRIES s =
             (s\<lparr>grid := fresh_grid s, tries_left := MAX_TRIES, column_hints := ch, row_hints := rh\<rparr>,
              [TriesLabel MAX_TRIES, Draw], None)"
    using restart_game_well_formed [OF assms(1), of MAX_TRIES] by blast
  have left: "button event = 1 \<Longrightarrow> on_click MAX_TRIES s event = left_click MAX_TRIES s (int j) (int i)"
    and right: "button event \<noteq> 1 \<Longrightarrow> button event = 3 \<Longrightarrow> on_click MAX_TRIES s event = right_click s (int j) (int i)"
    and other: "button event \<noteq> 1 \<Longrightarrow> button event \<noteq> 3 \<Longrightarrow> on_click MAX_TRIES s event = finish_click s []"
    by (simp_all add: on_click_def xy)
  show ?thesis
    unfolding i_def [symmetric] j_def [symmetric]
    using left right other
    by (simp add: left_click_cell [OF assms(1) b] right_click_cell [OF g]
        restart_after_last_try [OF assms(1) hints] r)
qed

lemma fresh_grid_cell:
  "i < n_rows s \<Longrightarrow> j < n_columns s \<Longrightarrow> fresh_grid s ! i ! j = ''0''"
  by (simp add: fresh_grid_def)

lemma filled_confirmed_fresh:
  "filled_confirmed (s\<lparr>grid := fresh_grid s, tries_left := t, column_hints := ch, row_hints := rh\<rparr>)"
  by (simp add: filled_confirmed_def fresh_grid_def)

lemma well_formed_restart:
  "well_formed s \<Longrightarrow>
   well_formed (s\<lparr>grid := fresh_grid s, tries_left := t, column_hints := ch, row_hints := rh\<rparr>)"
  by (auto simp: well_formed_def fresh_grid_def list_all_iff)

lemma filled_confirmed_tries [simp]:
  "filled_confirmed (s\<lparr>tries_left := t\<rparr>) = filled_confirmed s"
  by (simp add: filled_confirmed_def)

lemma filled_confirmed_set_cell:
  assumes "well_formed s" "filled_confirmed s" "i < n_rows s" "j < n_columns s"
    and "v = ''1'' \<longrightarrow> solution_filled s i j"
  shows "filled_confirmed (set_cell s i j v)"
  unfolding filled_confirmed_def
proof (intro allI impI)
  fix a b
  assume ab: "a < n_rows (set_cell s i j v)" "b < n_columns (set_cell s i j v)"
    and one: "grid (set_cell s i j v) ! a ! b = ''1''"
  from ab have ab': "a < n_rows s" "b < n_columns s" by simp_all
  show "solution_filled (set_cell s i j v) a b"
  proof (cases "a = i \<and> b = j")
    case True
    with one grid_set_cell_nth [OF assms(1,3,4) ab'] assms(5) show ?thesis by simp
  next
    case False
    with one grid_set_cell_nth [OF assms(1,3,4) ab'] have "grid s ! a ! b = ''1''" by auto
    with assms(2) ab' show ?thesis by (simp add: filled_confirmed_def)
  qed
qed

lemma on_click_invariant:
  assumes "well_formed s" "filled_confirmed s" "in_bounds s event"
  shows "well_formed (state_of (on_click MAX_TRIES s event)) \<and>
         filled_confirmed (state_of (on_click MAX_TRIES s event))"
proof -
  note b = in_bounds_nat [OF assms(3)]
  have set: "well_formed (set_cell s (nat (ydata event)) (nat (xdata event)) v) \<and>
             filled_confirmed (set_cell s (nat (ydata event)) (nat (xdata event)) v)"
    if "v = ''1'' \<longrightarrow> solution_filled s (nat (ydata event)) (nat (xdata event))" for v
    using filled_confirmed_set_cell [OF assms(1,2) _ _ that] b assms(1) by simp
  obtain ch rh where r: "state_of (restart_game MAX_TRIES s) =
           s\<lparr>grid := fresh_grid s, tries_left := MAX_TRIES, column_hints := ch, row_hints := rh\<rparr>"
    using state_of_restart_game [OF assms(1)] by blast
  have restart: "well_formed (state_of (restart_game MAX_TRIES s)) \<and>
                 filled_confirmed (state_of (restart_game MAX_TRIES s))"
    unfolding r using well_formed_restart [OF assms(1)] filled_confirmed_fresh by blast
  show ?thesis
    unfolding on_click_state [OF assms(1,3)]
    using set [of "''1''"] set [of "''x''"] set [of "''0''"] restart assms(1,2)
    by simp
qed

lemma init_game_invariant:
  assumes "init_game MAX_TRIES to_int files = Inr s"
  shows "well_formed s \<and> filled_confirmed s \<and> tries_left s = MAX_TRIES \<and> grid s = fresh_grid s"
proof -
  from assms obtain sol row0 ch rh where
    sol: "getitem_nat sol 0 = Inr row0" and
    hints: "determine_hints sol = Inr (ch, rh)" and
    s: "s = \<lparr>solution = sol, n_columns = length row0, n_rows = length sol,
             grid = replicate (length sol) (replicate (length row0) ''0''),
             column_hints = ch, row_hints = rh, tries_left = MAX_TRIES\<rparr>"
    by (auto simp: init_game_def split: sum.splits)
  from sol have ne: "sol \<noteq> []" and row0: "row0 = hd sol"
    by (cases sol; simp add: getitem_nat_def)+
  from determine_hints_Inr [OF hints]
  have rows: "list_all (\<lambda>r. length (hd sol) \<le> length r) sol" by simp
  show ?thesis
    using ne rows
    by (simp add: s row0 well_formed_def filled_confirmed_def fresh_grid_def list_all_iff)
qed

lemma load_puzzle_returns:
  assumes "load_puzzle MAX_TRIES to_int files s n = (s', shown, None)"
  shows "(files (puzzle_path n) = None \<and> s' = s) \<or>
         (files (puzzle_path n) \<noteq> None \<and> well_formed s' \<and> filled_confirmed s' \<and>
          tries_left s' = MAX_TRIES \<and> grid s' = fresh_grid s')"
proof (cases "get_solution to_int files n")
  case (Inl e)
  with assms show ?thesis
    using get_solution_error [OF Inl]
    by (auto simp: load_puzzle_def except_not_found_cases split: if_splits)
next
  case (Inr sol)
  then have present: "files (puzzle_path n) \<noteq> None"
    by (auto simp: get_solution_def split: option.splits)
  show ?thesis
  proof (cases sol)
    case Nil
    with Inr assms show ?thesis
      by (simp add: load_puzzle_def getitem_nat_def except_not_found_cases)
  next
    case (Cons row0 rest)
    let ?s3 = "s\<lparr>solution := sol, n_columns := length row0, n_rows := length sol\<rparr>"
    have load: "load_puzzle MAX_TRIES to_int files s n = except_not_found (restart_game MAX_TRIES ?s3)"
      using Inr Cons by (simp add: load_puzzle_def getitem_nat_def Let_def)
    show ?thesis
    proof (cases "determine_hints sol")
      case (Inl e)
      then have "e = IndexError" by (rule determine_hints_error)
      with Inl assms load show ?thesis
        by (simp add: restart_game_def except_not_found_cases)
    next
      case (Inr hints)
      obtain ch rh where h: "hints = (ch, rh)" by (cases hints)
      have s': "s' = ?s3\<lparr>grid := fresh_grid ?s3, tries_left := MAX_TRIES,
                        column_hints := ch, row_hints := rh\<rparr>"
        using assms load Inr h by (simp add: restart_game_def except_not_found_cases)
      from determine_hints_Inr [OF Inr]
      have rows: "list_all (\<lambda>r. length (hd sol) \<le> length r) sol" by simp
      have "well_formed s'"
        using rows Cons by (simp add: s' well_formed_def fresh_grid_def list_all_iff)
      moreover have "filled_confirmed s'"
        unfolding s' by (rule filled_confirmed_fresh)
      ultimately show ?thesis using present by (simp add: s' fresh_grid_def)
    qed
  qed
qed

lemma reachable_invariant:
  "reachable MAX_TRIES s \<Longrightarrow> well_formed s \<and> filled_confirmed s"
proof (induction rule: reachable.induct)
  case start
  then show ?case using init_game_invariant by blast
next
  case click
  then show ?case by (metis on_click_invariant outcome_parts(1))
next
  case (restart s)
  then obtain ch rh where "state_of (restart_game MAX_TRIES s) =
           s\<lparr>grid := fresh_grid s, tries_left := MAX_TRIES, column_hints := ch, row_hints := rh\<rparr>"
    using state_of_restart_game by blast
  with restart show ?case
    by (metis well_formed_restart filled_confirmed_fresh outcome_parts(1))
next
  case load
  then show ?case using load_puzzle_returns by blast
qed

lemma tries_left_restart_game:
  "tries_left (state_of (restart_game MAX_TRIES s)) = MAX_TRIES"
  by (simp add: restart_game_def Let_def split: sum.split prod.split)

lemma on_click_tries:
  assumes "well_formed s" "in_bounds s event"
  shows "tries_left (state_of (on_click MAX_TRIES s event)) =
          (if button event = 1 \<and> grid s ! nat (ydata event) ! nat (xdata event) = ''0'' \<and>
              \<not> solution_filled s (nat (ydata event)) (nat (xdata event))
           then (if tries_left s - 1 = 0 then MAX_TRIES else tries_left s - 1)
           else tries_left s)"
  unfolding on_click_state [OF assms] by (simp add: tries_left_restart_game)

lemma load_puzzle_tries:
  assumes "files (puzzle_path n) \<noteq> None"
    and "raised_by (load_puzzle MAX_TRIES to_int files s n) = None"
  shows "tries_left (state_of (load_puzzle MAX_TRIES to_int files s n)) = MAX_TRIES"
proof -
  obtain s' shown exc where l: "load_puzzle MAX_TRIES to_int files s n = (s', shown, exc)"
    by (cases "load_puzzle MAX_TRIES to_int files s n") auto
  with assms(2) have "exc = None" by simp
  with l load_puzzle_returns [of MAX_TRIES to_int files s n s' shown] assms(1)
  show ?thesis by auto
qed

lemma reachable_tries:
  assumes "0 < MAX_TRIES"
  shows "reachable MAX_TRIES s \<Longrightarrow> 0 < tries_left s \<and> tries_left s \<le> MAX_TRIES"
proof (induction rule: reachable.induct)
  case start
  then show ?case using init_game_invariant assms by fastforce
next
  case (click s event s' shown exc)
  have wf: "well_formed s" using reachable_invariant [OF click.hyps(1)] by simp
  have "tries_left s' = tries_left (state_of (on_click MAX_TRIES s event))"
    using click.hyps(3) by simp
  then show ?case
    using on_click_tries [OF wf click.hyps(2), of MAX_TRIES] click.IH assms
    by (auto split: if_splits)
next
  case (restart s s' shown exc)
  have "tries_left s' = tries_left (state_of (restart_game MAX_TRIES s))"
    using restart.hyps(2) by simp
  then show ?case using assms by (simp add: tries_left_restart_game)
next
  case (load s to_int files n s' shown)
  then show ?case using load_puzzle_returns [OF load.hyps(2)] assms by auto
qed

text \<open>
  C7. In every state reached from the constructor by clicks inside the grid, restarts
  and loads that return, a play cell holds \<open>"1"\<close> only if the solution cell it
  is compared with, \<open>solution[n_rows - i - 1][j]\<close>, is 1: no operation produces a
  wrongly filled cell.
\<close>

theorem filled_cells_are_correct:
  assumes "reachable MAX_TRIES s" "i < n_rows s" "j < n_columns s" "grid s ! i ! j = ''1''"
  shows "solution s ! (n_rows s - 1 - i) ! j = 1"
proof -
  have "well_formed s" "filled_confirmed s"
    using reachable_invariant [OF assms(1)] by simp_all
  then show ?thesis
    using assms(2-4) solution_filled_iff [of s i j] by (simp add: filled_confirmed_def)
qed

text \<open>
  C8. For a positive \<open>MAX_TRIES\<close>, the tries counter lies between 0 and
  \<open>MAX_TRIES\<close> in every state reached from the constructor by clicks inside the
  grid, restarts and loads that return. A click changes it only when it is a primary
  click on an unmarked cell whose solution cell is empty: it then drops by exactly 1,
  or, when that would make it 0, the restart within the same click sets it to
  \<open>MAX_TRIES\<close>. A restart and the load of a stored puzzle set it to
  \<open>MAX_TRIES\<close>, which is also its value after the constructor.
\<close>

theorem tries_counter_range:
  assumes "0 < MAX_TRIES" "reachable MAX_TRIES s"
  shows "0 \<le> tries_left s \<and> tries_left s \<le> MAX_TRIES \<and>
     (\<forall>event. in_bounds s event \<longrightarrow>
        tries_left (state_of (on_click MAX_TRIES s event)) =
          (if button event = 1 \<and> grid s ! nat (ydata event) ! nat (xdata event) = ''0'' \<and>
              \<not> solution_filled s (nat (ydata event)) (nat (xdata event))
           then (if tries_left s - 1 = 0 then MAX_TRIES else tries_left s - 1)
           else tries_left s)) \<and>
     tries_left (state_of (restart_game MAX_TRIES s)) = MAX_TRIES \<and>
     (\<forall>to_int files n.
        files (puzzle_path n) \<noteq> None \<and>
        raised_by (load_puzzle MAX_TRIES to_int files s n) = None \<longrightarrow>
        tries_left (state_of (load_puzzle MAX_TRIES to_int files s n)) = MAX_TRIES) \<and>
     (\<forall>to_int files s0.
        init_game MAX_TRIES to_int files = Inr s0 \<longrightarrow> tries_left s0 = MAX_TRIES)"
proof -
  have wf: "well_formed s" using reachable_invariant [OF assms(2)] by simp
  have range: "0 \<le> tries_left s \<and> tries_left s \<le> MAX_TRIES"
    using reachable_tries [OF assms] by simp
  have clicks: "\<forall>event. in_bounds s event \<longrightarrow>
        tries_left (state_of (on_click MAX_TRIES s event)) =
          (if button event = 1 \<and> grid s ! nat (ydata event) ! nat (xdata event) = ''0'' \<and>
              \<not> solution_filled s (nat (ydata event)) (nat (xdata event))
           then (if tries_left s - 1 = 0 then MAX_TRIES else tries_left s - 1)
           else tries_left s)"
    using on_click_tries [OF wf] by blast
  have loads: "\<forall>to_int files n.
        files (puzzle_path n) \<noteq> None \<and>
        raised_by (load_puzzle MAX_TRIES to_int files s n) = None \<longrightarrow>
        tries_left (state_of (load_puzzle MAX_TRIES to_int files s n)) = MAX_TRIES"
    using load_puzzle_tries by blast
  have starts: "\<forall>to_int files s0.
        init_game MAX_TRIES to_int files = Inr s0 \<longrightarrow> tries_left s0 = MAX_TRIES"
    using init_game_invariant by blast
  show ?thesis
    using range clicks loads starts tries_left_restart_game [of MAX_TRIES s] by blast
qed

lemma puzzle_path_1: "puzzle_path 1 = ''puzzles/puzzle_1.txt''"
  by (simp add: puzzle_path_def str_def str_nat.simps digit_char_def)

lemma demo_get_solution: "get_solution demo_to_int demo_files 1 = Inr [[1, 0, 0], [0, 1, 0]]"
  by (simp add: get_solution_def puzzle_path_1 demo_files_def demo_to_int_def)

lemma demo_hints: "determine_hints [[1, 0, 0], [0, 1, 0]] = Inr ([[1], [1], []], [[1], [1]])"
proof -
  have r: "rectangular [[1, 0, 0], [0, 1, 0 :: int]]" by (simp add: rectangular_def)
  have c: "columns [[1, 0, 0], [0, 1, 0 :: int]] = [[1, 0], [0, 1], [0, 0]]"
    by (simp add: columns_def column_def upt_conv_Cons)
  show ?thesis using determine_hints_run_lengths [OF r] by (simp add: c)
qed

lemma init_demo: "init_game 3 demo_to_int demo_files = Inr demo"
  by (simp add: init_game_def demo_get_solution getitem_nat_def demo_hints demo_def
      numeral_2_eq_2 numeral_3_eq_3)

lemma reachable_demo: "reachable 3 demo"
  using reachable.start [OF init_demo] .

lemma outcome_collapse: "r = (state_of r, shown_by r, raised_by r)"
  by (simp add: state_of_def shown_by_def raised_by_def)

lemma reachable_click:
  assumes "reachable MAX_TRIES s" "in_bounds s event"
  shows "reachable MAX_TRIES (state_of (on_click MAX_TRIES s event))"
  using reachable.click [OF assms outcome_collapse] .

lemma reachable_demo_filled: "reachable 3 (set_cell demo 0 1 ''1'')"
proof -
  have b: "in_bounds demo (primary 0 1)" by (simp add: in_bounds_def primary_def)
  have "state_of (on_click 3 demo (primary 0 1)) = set_cell demo 0 1 ''1''"
    using on_click_state [OF demo_well_formed b, of 3] demo_cells by (simp add: primary_def)
  then show ?thesis using reachable_click [OF reachable_demo b] by simp
qed

theorem filled_cells_are_correct_witness:
  "reachable 3 (set_cell demo 0 1 ''1'') \<and> grid (set_cell demo 0 1 ''1'') ! 0 ! 1 = ''1'' \<and>
   solution (set_cell demo 0 1 ''1'') ! (n_rows (set_cell demo 0 1 ''1'') - 1 - 0) ! 1 = 1"
proof -
  have g: "0 < n_rows (set_cell demo 0 1 ''1'')" "1 < n_columns (set_cell demo 0 1 ''1'')"
    "grid (set_cell demo 0 1 ''1'') ! 0 ! 1 = ''1''"
    by simp_all
  show ?thesis
    using filled_cells_are_correct [OF reachable_demo_filled g] reachable_demo_filled g(3)
    by blast
qed

theorem tries_counter_range_witness:
  "(0::int) < 3 \<and> reachable 3 demo \<and> 0 \<le> tries_left demo \<and> tries_left demo \<le> 3 \<and>
   tries_left (state_of (on_click 3 demo (primary 0 0))) = 2 \<and>
   tries_left (state_of (on_click 3 demo (primary 0 1))) = 3 \<and>
   tries_left (state_of (restart_game 3 demo)) = 3"
proof -
  have pos: "(0::int) < 3" by simp
  note t = tries_counter_range [OF pos reachable_demo]
  have b: "in_bounds demo (primary 0 0)" "in_bounds demo (primary 0 1)"
    by (simp_all add: in_bounds_def primary_def)
  have "tries_left (state_of (on_click 3 demo (primary 0 0))) = 2"
    using t [THEN conjunct2, THEN conjunct2, THEN conjunct1, rule_format, OF b(1)] demo_cells
    by (simp add: primary_def)
  moreover have "tries_left (state_of (on_click 3 demo (primary 0 1))) = 3"
    using t [THEN conjunct2, THEN conjunct2, THEN conjunct1, rule_format, OF b(2)] demo_cells
    by (simp add: primary_def)
  ultimately show ?thesis
    using t reachable_demo by simp
qed

lemma primary_inject: "primary a b = primary i j \<Longrightarrow> a = i \<and> b = j"
  by (simp add: primary_def)

lemma in_bounds_primary: "i < n_rows s \<Longrightarrow> j < n_columns s \<Longrightarrow> in_bounds s (primary i j)"
  by (simp add: in_bounds_def primary_def)

lemma correct_click:
  assumes "well_formed s" "i < n_rows s" "j < n_columns s" "solution_filled s i j"
    and "grid s ! i ! j = ''0'' \<or> grid s ! i ! j = ''1''"
  shows "state_of (on_click MAX_TRIES s (primary i j)) = set_cell s i j ''1''"
proof (cases "grid s ! i ! j = ''0''")
  case True
  then show ?thesis
    using on_click_state [OF assms(1) in_bounds_primary [OF assms(2,3)], of MAX_TRIES] assms(4)
    by (simp add: primary_def)
next
  case False
  with assms(5) have one: "grid s ! i ! j = ''1''" by simp
  have g: "i < length (grid s)" "j < length (grid s ! i)"
    using well_formed_grid_row [OF assms(1,2)] assms(3) by simp_all
  have "set_cell s i j ''1'' = s"
    using set_cell_twice [OF g, of "''1''"] one g by (simp add: set_cell_def)
  then show ?thesis
    using on_click_state [OF assms(1) in_bounds_primary [OF assms(2,3)], of MAX_TRIES] one
    by (simp add: primary_def)
qed

lemma correct_clicks_fill:
  assumes "well_formed s"
    and "\<forall>a < n_rows s. \<forall>b < n_columns s.
           solution_filled s a b \<longrightarrow> grid s ! a ! b = ''0'' \<or> grid s ! a ! b = ''1''"
    and "\<forall>e \<in> set events. \<exists>i j. e = primary i j \<and> i < n_rows s \<and> j < n_columns s \<and>
           solution_filled s i j"
  shows "well_formed (run_clicks MAX_TRIES s events) \<and>
         solution (run_clicks MAX_TRIES s events) = solution s \<and>
         n_rows (run_clicks MAX_TRIES s events) = n_rows s \<and>
         n_columns (run_clicks MAX_TRIES s events) = n_columns s \<and>
         (\<forall>a < n_rows s. \<forall>b < n_columns s. solution_filled s a b \<longrightarrow>
            grid (run_clicks MAX_TRIES s events) ! a ! b = ''1'' \<or>
            (grid s ! a ! b = ''0'' \<and> primary a b \<notin> set events))"
  using assms
proof (induction events arbitrary: s)
  case Nil
  then show ?case by auto
next
  case (Cons e events)
  from Cons.prems(3) obtain i j where e: "e = primary i j" and b: "i < n_rows s" "j < n_columns s"
    and f: "solution_filled s i j" by auto
  define s1 where "s1 = set_cell s i j ''1''"
  have step: "state_of (on_click MAX_TRIES s e) = s1"
    using correct_click [OF Cons.prems(1) b f] Cons.prems(2) b f by (simp add: e s1_def)
  have wf1: "well_formed s1" using Cons.prems(1) by (simp add: s1_def)
  have same: "solution s1 = solution s" "n_rows s1 = n_rows s" "n_columns s1 = n_columns s"
    by (simp_all add: s1_def)
  have filled: "solution_filled s1 a b = solution_filled s a b" for a b
    by (simp add: s1_def)
  have g1: "grid s1 ! a ! b = (if a = i \<and> b = j then ''1'' else grid s ! a ! b)"
    if "a < n_rows s" "b < n_columns s" for a b
    using grid_set_cell_nth [OF Cons.prems(1) b that] by (simp add: s1_def)
  have open1: "\<forall>a < n_rows s1. \<forall>b < n_columns s1.
           solution_filled s1 a b \<longrightarrow> grid s1 ! a ! b = ''0'' \<or> grid s1 ! a ! b = ''1''"
    using Cons.prems(2) g1 by (simp add: same filled)
  have ev1: "\<forall>e \<in> set events. \<exists>i j. e = primary i j \<and> i < n_rows s1 \<and> j < n_columns s1 \<and>
           solution_filled s1 i j"
    using Cons.prems(3) by (simp add: same filled)
  note ih = Cons.IH [OF wf1 open1 ev1]
  have cells: "grid (run_clicks MAX_TRIES s1 events) ! a ! b = ''1'' \<or>
            (grid s ! a ! b = ''0'' \<and> primary a b \<notin> set (e # events))"
    if ab: "a < n_rows s" "b < n_columns s" and fab: "solution_filled s a b" for a b
  proof -
    from ih ab fab have "grid (run_clicks MAX_TRIES s1 events) ! a ! b = ''1'' \<or>
            (grid s1 ! a ! b = ''0'' \<and> primary a b \<notin> set events)"
      by (simp add: same filled)
    then show ?thesis
    proof
      assume "grid (run_clicks MAX_TRIES s1 events) ! a ! b = ''1''"
      then show ?thesis by simp
    next
      assume r: "grid s1 ! a ! b = ''0'' \<and> primary a b \<notin> set events"
      with g1 [OF ab] have ne: "\<not> (a = i \<and> b = j)" and "grid s ! a ! b = ''0''"
        by (auto split: if_splits)
      moreover from ne have "primary a b \<noteq> e" using primary_inject e by blast
      ultimately show ?thesis using r by simp
    qed
  qed
  show ?case
    using ih cells by (simp add: step same)
qed

lemma fresh_state_open:
  assumes "well_formed s"
  shows "well_formed (state_of (restart_game MAX_TRIES s)) \<and>
         solution (state_of (restart_game MAX_TRIES s)) = solution s \<and>
         n_rows (state_of (restart_game MAX_TRIES s)) = n_rows s \<and>
         n_columns (state_of (restart_game MAX_TRIES s)) = n_columns s \<and>
         grid (state_of (restart_game MAX_TRIES s)) = fresh_grid s"
proof -
  obtain ch rh where r: "state_of (restart_game MAX_TRIES s) =
           s\<lparr>grid := fresh_grid s, tries_left := MAX_TRIES, column_hints := ch, row_hints := rh\<rparr>"
    using state_of_restart_game [OF assms] by blast
  show ?thesis
    unfolding r by (intro conjI) (rule well_formed_restart [OF assms], simp_all)
qed

text \<open>
  C5. Starting from a freshly restarted state, primary clicks on positions that the
  solution marks filled, covering every such position, and nothing else, leave a state
  in which \<open>check_state\<close> returns true. The clicks and the check consult the
  solution through the same index \<open>n_rows - i - 1\<close>.
\<close>

theorem correct_clicks_win:
  assumes "well_formed s"
    and "\<forall>e \<in> set events. \<exists>i j. e = primary i j \<and> i < n_rows s \<and> j < n_columns s \<and>
           solution s ! (n_rows s - 1 - i) ! j = 1"
    and "\<forall>i < n_rows s. \<forall>j < n_columns s.
           solution s ! (n_rows s - 1 - i) ! j = 1 \<longrightarrow> primary i j \<in> set events"
  shows "check_state (run_clicks MAX_TRIES (state_of (restart_game MAX_TRIES s)) events) = Inr True"
proof -
  define s0 where "s0 = state_of (restart_game MAX_TRIES s)"
  note fresh = fresh_state_open [OF assms(1), of MAX_TRIES, folded s0_def]
  have wf0: "well_formed s0" and same: "solution s0 = solution s" "n_rows s0 = n_rows s"
    "n_columns s0 = n_columns s" and g0: "grid s0 = fresh_grid s"
    using fresh by simp_all
  have filled: "solution_filled s0 a b = solution_filled s a b" for a b
    by (simp add: solution_filled_def same)
  have open0: "\<forall>a < n_rows s0. \<forall>b < n_columns s0.
           solution_filled s0 a b \<longrightarrow> grid s0 ! a ! b = ''0'' \<or> grid s0 ! a ! b = ''1''"
    by (simp add: g0 same fresh_grid_cell)
  have ev0: "\<forall>e \<in> set events. \<exists>i j. e = primary i j \<and> i < n_rows s0 \<and> j < n_columns s0 \<and>
           solution_filled s0 i j"
  proof
    fix e assume "e \<in> set events"
    with assms(2) obtain i j where "e = primary i j" "i < n_rows s" "j < n_columns s"
      "solution s ! (n_rows s - 1 - i) ! j = 1" by blast
    then show "\<exists>i j. e = primary i j \<and> i < n_rows s0 \<and> j < n_columns s0 \<and> solution_filled s0 i j"
      using solution_filled_iff [OF assms(1), of i j] by (auto simp: same filled)
  qed
  define s' where "s' = run_clicks MAX_TRIES s0 events"
  note run = correct_clicks_fill [OF wf0 open0 ev0, of MAX_TRIES, folded s'_def]
  have wf': "well_formed s'" and same': "solution s' = solution s" "n_rows s' = n_rows s"
    "n_columns s' = n_columns s"
    using run by (simp_all add: same)
  have "grid s' ! a ! b = ''1''"
    if ab: "a < n_rows s'" "b < n_columns s'" and f: "solution_filled s' a b" for a b
  proof -
    from ab have ab0: "a < n_rows s" "b < n_columns s" by (simp_all add: same')
    from f have f0: "solution_filled s a b" by (simp add: solution_filled_def same')
    then have "primary a b \<in> set events"
      using assms(3) ab0 solution_filled_iff [OF assms(1) ab0] by simp
    moreover from run ab0 f0 have "grid s' ! a ! b = ''1'' \<or> primary a b \<notin> set events"
      unfolding same filled by blast
    ultimately show ?thesis by blast
  qed
  then have "check_state s' = Inr True"
    using check_state_iff [OF wf'] by simp
  then show ?thesis by (simp add: s'_def s0_def)
qed

theorem correct_clicks_win_witness:
  "well_formed demo \<and>
   check_state (run_clicks 3 (state_of (restart_game 3 demo)) [primary 0 1, primary 1 0]) = Inr True"
proof -
  have all2: "(\<forall>i<2. P i) = (P 0 \<and> P (Suc 0))" for P :: "nat \<Rightarrow> bool"
    by (auto simp: less_Suc_eq numeral_2_eq_2)
  have all3: "(\<forall>i<3. P i) = (P 0 \<and> P (Suc 0) \<and> P 2)" for P :: "nat \<Rightarrow> bool"
    by (auto simp: less_Suc_eq numeral_3_eq_3 numeral_2_eq_2)
  have ev: "\<forall>e \<in> set [primary 0 1, primary 1 0].
      \<exists>i j. e = primary i j \<and> i < n_rows demo \<and> j < n_columns demo \<and>
            solution demo ! (n_rows demo - 1 - i) ! j = 1"
  proof -
    have "\<exists>i j. primary 0 1 = primary i j \<and> i < n_rows demo \<and> j < n_columns demo \<and>
            solution demo ! (n_rows demo - 1 - i) ! j = 1"
      by (intro exI [of _ 0] exI [of _ 1]) simp
    moreover have "\<exists>i j. primary 1 0 = primary i j \<and> i < n_rows demo \<and> j < n_columns demo \<and>
            solution demo ! (n_rows demo - 1 - i) ! j = 1"
      by (intro exI [of _ 1] exI [of _ 0]) simp
    ultimately show ?thesis by simp
  qed
  have cover: "\<forall>i < n_rows demo. \<forall>j < n_columns demo.
      solution demo ! (n_rows demo - 1 - i) ! j = 1 \<longrightarrow>
        primary i j \<in> set [primary 0 1, primary 1 0]"
    by (simp add: all2 all3)
  show ?thesis
    using correct_clicks_win [OF demo_well_formed ev cover, of 3] demo_well_formed by simp
qed

end
